theory Spec2Isabelle
  imports Main "HOL-Library.Word" "HOL-Library.Sublist"
begin

section \<open>Pointers, heaps and run-time panics\<close>

text \<open>
  The program is Go (\<^verbatim>\<open>src/problems/airline-management-system.go\<close>). Its structs are
  reached through pointers, so objects live in heaps: one heap per struct type, an
  address being an index into it. A pointer is \<^verbatim>\<open>nil\<close> or an address; the type
  parameter only records what it points to. Go has no dangling pointers, so an address
  is valid in every heap that was extended after it was handed out; \<open>load\<close> treats an
  address beyond the heap like \<^verbatim>\<open>nil\<close>, a case no run of the program reaches.
  Go's run-time panics are the errors of the model.
\<close>

type_synonym addr = nat

datatype 'a ptr = nil | Ptr addr

datatype panic = NilDereference | MakeLenOutOfRange | IndexOutOfRange

type_synonym 'a heap = "'a list"

definition load :: "'a heap \<Rightarrow> 'a ptr \<Rightarrow> panic + 'a" where
  "load h p =
     (case p of
        nil \<Rightarrow> Inl NilDereference
      | Ptr a \<Rightarrow> if a < length h then Inr (h ! a) else Inl NilDereference)"

text \<open>Whether a pointer can be dereferenced.\<close>

definition loadable :: "'a heap \<Rightarrow> 'a ptr \<Rightarrow> bool" where
  "loadable h p = (case load h p of Inl e \<Rightarrow> False | Inr v \<Rightarrow> True)"

text \<open>\<^verbatim>\<open>&T{...}\<close>: a fresh object at the end of the heap.\<close>

definition new :: "'a heap \<Rightarrow> 'a \<Rightarrow> 'a ptr \<times> 'a heap" where
  "new h v = (Ptr (length h), h @ [v])"

text \<open>\<^verbatim>\<open>p.field = v\<close>: the object behind \<open>p\<close> is changed in place.\<close>

definition store :: "'a heap \<Rightarrow> 'a ptr \<Rightarrow> ('a \<Rightarrow> 'a) \<Rightarrow> panic + 'a heap" where
  "store h p upd =
     (case p of
        nil \<Rightarrow> Inl NilDereference
      | Ptr a \<Rightarrow> if a < length h then Inr (h[a := upd (h ! a)]) else Inl NilDereference)"

text \<open>
  \<^verbatim>\<open>make([]*T, n)\<close> panics on a negative length and otherwise yields \<open>n\<close> nil pointers
  (memory is not bounded in the model, so no allocation fails).
  \<^verbatim>\<open>xs[i]\<close> and \<^verbatim>\<open>xs[i] = v\<close> panic outside \<open>0 \<le> i < len(xs)\<close>. Go's \<^verbatim>\<open>int\<close> is modelled
  by \<open>int\<close>: the only arithmetic of the program is \<^verbatim>\<open>i + 1\<close> below a slice length and
  \<^verbatim>\<open>seatNumber - 1\<close> above \<open>0\<close>, neither of which can wrap.
\<close>

definition make_ptrs :: "int \<Rightarrow> panic + 'a ptr list" where
  "make_ptrs n = (if n < 0 then Inl MakeLenOutOfRange else Inr (replicate (nat n) nil))"

definition index :: "'a list \<Rightarrow> int \<Rightarrow> panic + 'a" where
  "index xs i = (if 0 \<le> i \<and> i < int (length xs) then Inr (xs ! nat i) else Inl IndexOutOfRange)"

definition set_index :: "'a list \<Rightarrow> int \<Rightarrow> 'a \<Rightarrow> panic + 'a list" where
  "set_index xs i v =
     (if 0 \<le> i \<and> i < int (length xs) then Inr (xs[nat i := v]) else Inl IndexOutOfRange)"

section \<open>Data model\<close>

record Aircraft =
  TailNumber :: string
  Model :: string
  TotalSeats :: int

record Seat =
  SeatNumber :: int
  IsBooked :: bool

text \<open>
  \<^verbatim>\<open>time.Time\<close> belongs to Go's standard library. The program only calls \<^verbatim>\<open>Year()\<close>,
  \<^verbatim>\<open>Month()\<close> and \<^verbatim>\<open>Day()\<close> on it, which report the calendar date in the value's own
  location; the rest of a time value is its time of day and that location.
\<close>

record Time =
  Year :: int
  Month :: int
  Day :: int
  Clock :: nat
  Location :: string

text \<open>
  \<^verbatim>\<open>Seats []*Seat\<close> is filled once by \<^verbatim>\<open>NewFlight\<close>; no statement of the program assigns
  to a Flight's field or to an element of \<^verbatim>\<open>Seats\<close> afterwards, and the slice is never
  copied or appended to. It is therefore kept as the list of its elements.
\<close>

record Flight =
  FlightNumber :: string
  Source :: string
  Destination :: string
  Departure :: Time
  Arrival :: Time
  Aircraft :: "Aircraft ptr"
  Seats :: "Seat ptr list"

record Passenger =
  PassengerID :: string
  Name :: string
  Email :: string
  Phone :: string

record Booking =
  BookingID :: string
  Flight :: "Flight ptr"
  Passenger :: "Passenger ptr"
  SeatNumber :: int
  BookingTime :: Time

text \<open>\<^verbatim>\<open>Amount float64\<close> is kept as its 64-bit pattern; the program does no arithmetic on it.\<close>

record Payment =
  PaymentID :: string
  Amount :: "64 word"
  Method :: string
  Status :: string

text \<open>The heaps that flights live in.\<close>

record world =
  aircraft_heap :: "Aircraft heap"
  seat_heap :: "Seat heap"
  flight_heap :: "Flight heap"

definition empty_world :: world where
  "empty_world = \<lparr>aircraft_heap = [], seat_heap = [], flight_heap = []\<rparr>"

section \<open>Aircraft and Flight\<close>

definition NewAircraft :: "world \<Rightarrow> string \<Rightarrow> string \<Rightarrow> int \<Rightarrow> Aircraft ptr \<times> world" where
  "NewAircraft w tailNumber model totalSeats =
     (let (p, h) = new (aircraft_heap w)
            \<lparr>TailNumber = tailNumber, Model = model, TotalSeats = totalSeats\<rparr>
      in (p, w\<lparr>aircraft_heap := h\<rparr>))"

text \<open>
  The loop of \<^verbatim>\<open>NewFlight\<close>:
  \<^verbatim>\<open>for i := 0; i < aircraft.TotalSeats; i++ { seats[i] = &Seat{SeatNumber: i + 1, IsBooked: false} }\<close>
\<close>

function fill_seats ::
  "int \<Rightarrow> int \<Rightarrow> Seat ptr list \<Rightarrow> Seat heap \<Rightarrow> panic + (Seat ptr list \<times> Seat heap)" where
  "fill_seats i n seats sh =
     (if i < n then
        (let (p, sh') = new sh \<lparr>Seat.SeatNumber = i + 1, IsBooked = False\<rparr>
         in case set_index seats i p of
              Inl e \<Rightarrow> Inl e
            | Inr seats' \<Rightarrow> fill_seats (i + 1) n seats' sh')
      else Inr (seats, sh))"
  by pat_completeness auto
termination
  by (relation "measure (\<lambda>(i, n, seats, sh). nat (n - i))") auto

declare fill_seats.simps [simp del]

definition NewFlight ::
  "world \<Rightarrow> string \<Rightarrow> string \<Rightarrow> string \<Rightarrow> Time \<Rightarrow> Time \<Rightarrow> Aircraft ptr \<Rightarrow> panic + (Flight ptr \<times> world)"
  where
  "NewFlight w flightNumber source destination departure arrival aircraft =
     (case load (aircraft_heap w) aircraft of
        Inl e \<Rightarrow> Inl e
      | Inr ac \<Rightarrow>
          (case make_ptrs (TotalSeats ac) of
             Inl e \<Rightarrow> Inl e
           | Inr seats0 \<Rightarrow>
               (case fill_seats 0 (TotalSeats ac) seats0 (seat_heap w) of
                  Inl e \<Rightarrow> Inl e
                | Inr (seats, sh) \<Rightarrow>
                    (let (fp, fh) = new (flight_heap w)
                           \<lparr>FlightNumber = flightNumber, Source = source,
                            Destination = destination, Departure = departure,
                            Arrival = arrival, Aircraft = aircraft, Seats = seats\<rparr>
                     in Inr (fp, w\<lparr>seat_heap := sh, flight_heap := fh\<rparr>)))))"

text \<open>
  \<^verbatim>\<open>BookSeat\<close> (the spec's \<^verbatim>\<open>ReserveSeat\<close>), lines 141-150. The receiver \<^verbatim>\<open>f\<close> is a
  pointer. Line 145 reads the seat through the pointer \<^verbatim>\<open>f.Seats[seatNumber-1]\<close>, line 148
  evaluates the same expression again and writes the seat in place. The function takes
  no lock.
\<close>

definition BookSeat :: "world \<Rightarrow> Flight ptr \<Rightarrow> int \<Rightarrow> panic + (bool \<times> world)" where
  "BookSeat w f seatNumber =
     (case load (flight_heap w) f of
        Inl e \<Rightarrow> Inl e
      | Inr fl \<Rightarrow>
          if seatNumber < 1 \<or> seatNumber > int (length (Seats fl)) then Inr (False, w)
          else
            (case index (Seats fl) (seatNumber - 1) of
               Inl e \<Rightarrow> Inl e
             | Inr sp \<Rightarrow>
                 (case load (seat_heap w) sp of
                    Inl e \<Rightarrow> Inl e
                  | Inr s \<Rightarrow>
                      if IsBooked s then Inr (False, w)
                      else
                        (case index (Seats fl) (seatNumber - 1) of
                           Inl e \<Rightarrow> Inl e
                         | Inr sp' \<Rightarrow>
                             (case store (seat_heap w) sp' (\<lambda>s. s\<lparr>IsBooked := True\<rparr>) of
                                Inl e \<Rightarrow> Inl e
                              | Inr sh \<Rightarrow> Inr (True, w\<lparr>seat_heap := sh\<rparr>))))))"

subsection \<open>Concurrent calls of BookSeat\<close>

text \<open>
  Goroutines that call \<^verbatim>\<open>BookSeat\<close> share the seats. As \<^verbatim>\<open>BookSeat\<close> takes no lock, another
  goroutine can run between its read of the flag (line 145) and its write (line 148).
  A call is therefore two steps: \<open>BookSeat_check\<close> is lines 142-147, where \<open>Inr False\<close>
  is \<^verbatim>\<open>return false\<close> and \<open>Inr True\<close> means that control goes on to line 148;
  \<open>BookSeat_set\<close> is line 148, after which the call returns true. A schedule names the
  goroutine that takes the next step. Steps are taken one at a time, which is the least
  that an execution of unsynchronised goroutines allows.
\<close>

definition BookSeat_check :: "world \<Rightarrow> Flight ptr \<Rightarrow> int \<Rightarrow> panic + bool" where
  "BookSeat_check w f seatNumber =
     (case load (flight_heap w) f of
        Inl e \<Rightarrow> Inl e
      | Inr fl \<Rightarrow>
          if seatNumber < 1 \<or> seatNumber > int (length (Seats fl)) then Inr False
          else
            (case index (Seats fl) (seatNumber - 1) of
               Inl e \<Rightarrow> Inl e
             | Inr sp \<Rightarrow>
                 (case load (seat_heap w) sp of
                    Inl e \<Rightarrow> Inl e
                  | Inr s \<Rightarrow> if IsBooked s then Inr False else Inr True)))"

definition BookSeat_set :: "world \<Rightarrow> Flight ptr \<Rightarrow> int \<Rightarrow> panic + world" where
  "BookSeat_set w f seatNumber =
     (case load (flight_heap w) f of
        Inl e \<Rightarrow> Inl e
      | Inr fl \<Rightarrow>
          (case index (Seats fl) (seatNumber - 1) of
             Inl e \<Rightarrow> Inl e
           | Inr sp' \<Rightarrow>
               (case store (seat_heap w) sp' (\<lambda>s. s\<lparr>IsBooked := True\<rparr>) of
                  Inl e \<Rightarrow> Inl e
                | Inr sh \<Rightarrow> Inr (w\<lparr>seat_heap := sh\<rparr>))))"

datatype pc = AtCheck | AtSet | Returned bool | Panicked panic

text \<open>A goroutine running \<^verbatim>\<open>f.BookSeat(seatNumber)\<close>: receiver, argument, position.\<close>

type_synonym goroutine = "Flight ptr \<times> int \<times> pc"

fun step :: "world \<Rightarrow> goroutine \<Rightarrow> world \<times> goroutine" where
  "step w (f, n, AtCheck) =
     (case BookSeat_check w f n of
        Inl e \<Rightarrow> (w, (f, n, Panicked e))
      | Inr go_on \<Rightarrow> (w, (f, n, if go_on then AtSet else Returned False)))"
| "step w (f, n, AtSet) =
     (case BookSeat_set w f n of
        Inl e \<Rightarrow> (w, (f, n, Panicked e))
      | Inr w' \<Rightarrow> (w', (f, n, Returned True)))"
| "step w (f, n, Returned b) = (w, (f, n, Returned b))"
| "step w (f, n, Panicked e) = (w, (f, n, Panicked e))"

fun run :: "nat list \<Rightarrow> world \<times> goroutine list \<Rightarrow> world \<times> goroutine list" where
  "run [] c = c"
| "run (i # sched) (w, gs) =
     (if i < length gs
      then (case step w (gs ! i) of (w', g') \<Rightarrow> run sched (w', gs[i := g']))
      else run sched (w, gs))"

subsection \<open>Well-formed flights and sequences of operations\<close>

text \<open>
  What \<^verbatim>\<open>NewFlight\<close> establishes for the flight it builds: the seat pointers are pairwise
  different and point to seats numbered \<open>1, 2, ...\<close> in order, and there are as many as
  the aircraft's \<^verbatim>\<open>TotalSeats\<close>.
\<close>

definition wf_flight :: "world \<Rightarrow> Flight \<Rightarrow> bool" where
  "wf_flight w fl \<longleftrightarrow>
     distinct (Seats fl) \<and>
     list_all
       (\<lambda>(i, sp). case load (seat_heap w) sp of
                     Inl e \<Rightarrow> False
                   | Inr s \<Rightarrow> Seat.SeatNumber s = int i + 1)
       (enumerate 0 (Seats fl)) \<and>
     (case load (aircraft_heap w) (Aircraft fl) of
        Inl e \<Rightarrow> False
      | Inr ac \<Rightarrow> TotalSeats ac = int (length (Seats fl)))"

definition wf_world :: "world \<Rightarrow> bool" where
  "wf_world w = list_all (wf_flight w) (flight_heap w)"

text \<open>The seat numbered \<open>n\<close> of the flight behind \<open>f\<close>, when there is one.\<close>

definition seat_at :: "world \<Rightarrow> Flight ptr \<Rightarrow> int \<Rightarrow> Seat option" where
  "seat_at w f n =
     (case load (flight_heap w) f of
        Inl e \<Rightarrow> None
      | Inr fl \<Rightarrow>
          (case index (Seats fl) (n - 1) of
             Inl e \<Rightarrow> None
           | Inr sp \<Rightarrow>
               (case load (seat_heap w) sp of Inl e \<Rightarrow> None | Inr s \<Rightarrow> Some s)))"

text \<open>
  The operations of the program on aircraft, flights and seats. A call that panics
  changes nothing: \<^verbatim>\<open>NewFlight\<close> and \<^verbatim>\<open>BookSeat\<close> can only panic before their first
  allocation or write.
\<close>

datatype op =
    OpNewAircraft string string int
  | OpNewFlight string string string Time Time "Aircraft ptr"
  | OpBookSeat "Flight ptr" int

fun exec :: "world \<Rightarrow> op \<Rightarrow> world" where
  "exec w (OpNewAircraft tailNumber model totalSeats) =
     snd (NewAircraft w tailNumber model totalSeats)"
| "exec w (OpNewFlight flightNumber source destination departure arrival aircraft) =
     (case NewFlight w flightNumber source destination departure arrival aircraft of
        Inl e \<Rightarrow> w
      | Inr (f, w') \<Rightarrow> w')"
| "exec w (OpBookSeat f seatNumber) =
     (case BookSeat w f seatNumber of Inl e \<Rightarrow> w | Inr (b, w') \<Rightarrow> w')"

definition exec_all :: "world \<Rightarrow> op list \<Rightarrow> world" where
  "exec_all w ops = foldl exec w ops"

text \<open>
  How a world can differ from an earlier one: the heaps of aircraft and flights have only
  grown at the end, and every seat that existed is still there with its number, booked
  if it was booked.
\<close>

definition evolves :: "world \<Rightarrow> world \<Rightarrow> bool" where
  "evolves w w' \<longleftrightarrow>
     prefix (aircraft_heap w) (aircraft_heap w') \<and>
     prefix (flight_heap w) (flight_heap w') \<and>
     length (seat_heap w) \<le> length (seat_heap w') \<and>
     (\<forall>a < length (seat_heap w).
        Seat.SeatNumber (seat_heap w' ! a) = Seat.SeatNumber (seat_heap w ! a) \<and>
        (IsBooked (seat_heap w ! a) \<longrightarrow> IsBooked (seat_heap w' ! a)))"

section \<open>Slices\<close>

text \<open>
  \<^verbatim>\<open>flights []*Flight\<close> and \<^verbatim>\<open>aircrafts []*Aircraft\<close> are appended to, and the first is
  copied into the FlightSearch, so these slices are modelled as Go has them: a slice value
  is a header (underlying array, length, capacity), the arrays live in a heap, and
  assigning a slice copies the header only. The program never reslices, so a header
  starts at element 0 of its array.
\<close>

record slice =
  array :: addr
  len :: nat
  cap :: nat

text \<open>\<^verbatim>\<open>make([]*T, 0)\<close>\<close>

definition make_empty :: "'a ptr list heap \<Rightarrow> slice \<times> 'a ptr list heap" where
  "make_empty arrs = (\<lparr>array = length arrs, len = 0, cap = 0\<rparr>, arrs @ [[]])"

text \<open>The elements that \<^verbatim>\<open>range s\<close> visits.\<close>

definition elems :: "'a ptr list heap \<Rightarrow> slice \<Rightarrow> 'a ptr list" where
  "elems arrs s = (if array s < length arrs then take (len s) (arrs ! array s) else [])"

text \<open>
  \<^verbatim>\<open>append(s, x)\<close>: with spare capacity the element is written into the underlying array
  and the header returned has the length one greater; otherwise the elements are moved
  to a new, larger array. How much larger is the Go runtime's choice, so the growth
  policy \<open>grow\<close> (new capacity from old) is a parameter; the new array always has room
  for the element.
\<close>

definition append_slice :: "(nat \<Rightarrow> nat) \<Rightarrow> 'a ptr list heap \<Rightarrow> slice \<Rightarrow> 'a ptr \<Rightarrow> slice \<times> 'a ptr list heap"
  where
  "append_slice grow arrs s x =
     (if len s < cap s
      then (s\<lparr>len := len s + 1\<rparr>, arrs[array s := (arrs ! array s)[len s := x]])
      else
        (let c = max (len s + 1) (grow (cap s))
         in (\<lparr>array = length arrs, len = len s + 1, cap = c\<rparr>,
             arrs @ [elems arrs s @ x # replicate (c - (len s + 1)) nil])))"

section \<open>Booking Store and Payment Store\<close>

text \<open>
  A method's receiver is modelled by the object behind it, passed in and returned. The
  mutexes are left out of the state: every method that locks one unlocks it before it
  returns.
\<close>

record BookingManager =
  bookings :: "string \<rightharpoonup> Booking ptr"

record PaymentProcessor =
  payments :: "string \<rightharpoonup> Payment ptr"

text \<open>
  The package-level variables, with the heaps of the two store types. A \<^verbatim>\<open>sync.Once\<close> is
  the flag that says whether its \<^verbatim>\<open>Do\<close> has already run a function.
\<close>

record globals =
  bookingManagerInstance :: "BookingManager ptr"
  onceBookingManager :: bool
  paymentProcessorInstance :: "PaymentProcessor ptr"
  oncePaymentProcessor :: bool
  manager_heap :: "BookingManager heap"
  processor_heap :: "PaymentProcessor heap"

definition process_start :: globals where
  "process_start =
     \<lparr>bookingManagerInstance = nil, onceBookingManager = False,
      paymentProcessorInstance = nil, oncePaymentProcessor = False,
      manager_heap = [], processor_heap = []\<rparr>"

definition GetBookingManager :: "globals \<Rightarrow> BookingManager ptr \<times> globals" where
  "GetBookingManager g =
     (let g' =
        (if onceBookingManager g then g
         else
           (let (p, h) = new (manager_heap g) \<lparr>bookings = Map.empty\<rparr>
            in g\<lparr>manager_heap := h, bookingManagerInstance := p, onceBookingManager := True\<rparr>))
      in (bookingManagerInstance g', g'))"

definition GetPaymentProcessor :: "globals \<Rightarrow> PaymentProcessor ptr \<times> globals" where
  "GetPaymentProcessor g =
     (let g' =
        (if oncePaymentProcessor g then g
         else
           (let (p, h) = new (processor_heap g) \<lparr>payments = Map.empty\<rparr>
            in g\<lparr>processor_heap := h, paymentProcessorInstance := p,
                 oncePaymentProcessor := True\<rparr>))
      in (paymentProcessorInstance g', g'))"

text \<open>A sequence of calls of the two accessors, with what each call returns.\<close>

datatype accessor = BookingStore | PaymentStore

datatype singleton = Manager "BookingManager ptr" | Processor "PaymentProcessor ptr"

fun access :: "globals \<Rightarrow> accessor list \<Rightarrow> singleton list \<times> globals" where
  "access g [] = ([], g)"
| "access g (BookingStore # cs) =
     (case GetBookingManager g of
        (p, g') \<Rightarrow> (case access g' cs of (rs, g'') \<Rightarrow> (Manager p # rs, g'')))"
| "access g (PaymentStore # cs) =
     (case GetPaymentProcessor g of
        (p, g') \<Rightarrow> (case access g' cs of (rs, g'') \<Rightarrow> (Processor p # rs, g'')))"

definition AddBooking :: "Booking heap \<Rightarrow> BookingManager \<Rightarrow> Booking ptr \<Rightarrow> panic + BookingManager"
  where
  "AddBooking bh bm booking =
     (case load bh booking of
        Inl e \<Rightarrow> Inl e
      | Inr b \<Rightarrow> Inr (bm\<lparr>bookings := (bookings bm)(BookingID b \<mapsto> booking)\<rparr>))"

text \<open>Indexing a Go map with an absent key yields the zero value, here \<^verbatim>\<open>nil\<close>.\<close>

definition GetBooking :: "BookingManager \<Rightarrow> string \<Rightarrow> Booking ptr" where
  "GetBooking bm bookingID = (case bookings bm bookingID of None \<Rightarrow> nil | Some p \<Rightarrow> p)"

definition ProcessPayment ::
  "Payment heap \<Rightarrow> PaymentProcessor \<Rightarrow> Payment ptr \<Rightarrow> panic + PaymentProcessor" where
  "ProcessPayment ph pp payment =
     (case load ph payment of
        Inl e \<Rightarrow> Inl e
      | Inr py \<Rightarrow> Inr (pp\<lparr>payments := (payments pp)(PaymentID py \<mapsto> payment)\<rparr>))"

text \<open>
  The constructors of the records that the stores hold. What \<^verbatim>\<open>time.Now()\<close> returns is the
  parameter \<open>now\<close>.
\<close>

definition NewPassenger ::
  "Passenger heap \<Rightarrow> string \<Rightarrow> string \<Rightarrow> string \<Rightarrow> string \<Rightarrow> Passenger ptr \<times> Passenger heap"
  where
  "NewPassenger h passengerID name email phone =
     new h \<lparr>PassengerID = passengerID, Name = name, Email = email, Phone = phone\<rparr>"

definition NewBooking ::
  "Time \<Rightarrow> Booking heap \<Rightarrow> string \<Rightarrow> Flight ptr \<Rightarrow> Passenger ptr \<Rightarrow> int \<Rightarrow>
     Booking ptr \<times> Booking heap" where
  "NewBooking now h bookingID flight passenger seatNumber =
     new h \<lparr>BookingID = bookingID, Flight = flight, Passenger = passenger,
            SeatNumber = seatNumber, BookingTime = now\<rparr>"

definition NewPayment ::
  "Payment heap \<Rightarrow> string \<Rightarrow> 64 word \<Rightarrow> string \<Rightarrow> string \<Rightarrow> Payment ptr \<times> Payment heap" where
  "NewPayment h paymentID amount method status =
     new h \<lparr>PaymentID = paymentID, Amount = amount, Method = method, Status = status\<rparr>"

text \<open>A sequence of \<^verbatim>\<open>AddBooking\<close> calls; a panic ends it.\<close>

fun AddBookings ::
  "Booking heap \<Rightarrow> BookingManager \<Rightarrow> Booking ptr list \<Rightarrow> panic + BookingManager" where
  "AddBookings bh bm [] = Inr bm"
| "AddBookings bh bm (p # ps) =
     (case AddBooking bh bm p of Inl e \<Rightarrow> Inl e | Inr bm' \<Rightarrow> AddBookings bh bm' ps)"

text \<open>
  The bookings of a sequence of calls that were added under an id, oldest first.
\<close>

definition added_under :: "Booking heap \<Rightarrow> string \<Rightarrow> Booking ptr list \<Rightarrow> Booking ptr list" where
  "added_under bh bookingID ps =
     filter (\<lambda>p. case load bh p of Inl e \<Rightarrow> False | Inr b \<Rightarrow> BookingID b = bookingID) ps"

section \<open>Flight Search and the Facade\<close>

record FlightSearch =
  fs_flights :: slice

record AirlineManagementSystem =
  flights :: slice
  aircrafts :: slice
  flightSearch :: "FlightSearch ptr"
  bookingManager :: "BookingManager ptr"
  paymentProcessor :: "PaymentProcessor ptr"

text \<open>The heaps of the Facade: the arrays under its slices, and the FlightSearch objects.\<close>

record memory =
  flight_arrays :: "Flight ptr list heap"
  aircraft_arrays :: "Aircraft ptr list heap"
  search_heap :: "FlightSearch heap"

definition empty_memory :: memory where
  "empty_memory = \<lparr>flight_arrays = [], aircraft_arrays = [], search_heap = []\<rparr>"

definition NewFlightSearch :: "memory \<Rightarrow> slice \<Rightarrow> FlightSearch ptr \<times> memory" where
  "NewFlightSearch m flights_arg =
     (let (p, h) = new (search_heap m) \<lparr>fs_flights = flights_arg\<rparr>
      in (p, m\<lparr>search_heap := h\<rparr>))"

definition NewAirlineManagementSystem ::
  "globals \<Rightarrow> memory \<Rightarrow> AirlineManagementSystem \<times> globals \<times> memory" where
  "NewAirlineManagementSystem g m =
     (let (fl, fa) = make_empty (flight_arrays m);
          (al, aa) = make_empty (aircraft_arrays m);
          (bmp, g1) = GetBookingManager g;
          (ppp, g2) = GetPaymentProcessor g1;
          system = \<lparr>flights = fl, aircrafts = al, flightSearch = nil,
                    bookingManager = bmp, paymentProcessor = ppp\<rparr>;
          (fsp, m') = NewFlightSearch (m\<lparr>flight_arrays := fa, aircraft_arrays := aa\<rparr>)
                        (flights system)
      in (system\<lparr>flightSearch := fsp\<rparr>, g2, m'))"

definition AddFlight ::
  "(nat \<Rightarrow> nat) \<Rightarrow> memory \<Rightarrow> AirlineManagementSystem \<Rightarrow> Flight ptr \<Rightarrow>
     AirlineManagementSystem \<times> memory" where
  "AddFlight grow m ams flight =
     (let (s, arrs) = append_slice grow (flight_arrays m) (flights ams) flight
      in (ams\<lparr>flights := s\<rparr>, m\<lparr>flight_arrays := arrs\<rparr>))"

definition AddAircraft ::
  "(nat \<Rightarrow> nat) \<Rightarrow> memory \<Rightarrow> AirlineManagementSystem \<Rightarrow> Aircraft ptr \<Rightarrow>
     AirlineManagementSystem \<times> memory" where
  "AddAircraft grow m ams aircraft =
     (let (s, arrs) = append_slice grow (aircraft_arrays m) (aircrafts ams) aircraft
      in (ams\<lparr>aircrafts := s\<rparr>, m\<lparr>aircraft_arrays := arrs\<rparr>))"

text \<open>
  The loop of \<^verbatim>\<open>FlightSearch.SearchFlights\<close> over the elements of \<^verbatim>\<open>fs.flights\<close>.
  \<^verbatim>\<open>results\<close> is a slice of the function's own that nothing else refers to; it is kept
  as the list of its elements.
\<close>

fun search_loop ::
  "Flight heap \<Rightarrow> string \<Rightarrow> string \<Rightarrow> Time \<Rightarrow> Flight ptr list \<Rightarrow> Flight ptr list \<Rightarrow>
     panic + Flight ptr list" where
  "search_loop fh source destination date [] results = Inr results"
| "search_loop fh source destination date (flight # rest) results =
     (case load fh flight of
        Inl e \<Rightarrow> Inl e
      | Inr fl \<Rightarrow>
          if Source fl = source \<and> Destination fl = destination \<and>
             Year (Departure fl) = Year date \<and>
             Month (Departure fl) = Month date \<and>
             Day (Departure fl) = Day date
          then search_loop fh source destination date rest (results @ [flight])
          else search_loop fh source destination date rest results)"

definition FlightSearch_SearchFlights ::
  "Flight heap \<Rightarrow> Flight ptr list heap \<Rightarrow> FlightSearch \<Rightarrow> string \<Rightarrow> string \<Rightarrow> Time \<Rightarrow>
     panic + Flight ptr list" where
  "FlightSearch_SearchFlights fh arrs fs source destination date =
     search_loop fh source destination date (elems arrs (fs_flights fs)) []"

definition SearchFlights ::
  "Flight heap \<Rightarrow> memory \<Rightarrow> AirlineManagementSystem \<Rightarrow> string \<Rightarrow> string \<Rightarrow> Time \<Rightarrow>
     panic + Flight ptr list" where
  "SearchFlights fh m ams source destination date =
     (case load (search_heap m) (flightSearch ams) of
        Inl e \<Rightarrow> Inl e
      | Inr fs \<Rightarrow> FlightSearch_SearchFlights fh (flight_arrays m) fs source destination date)"

text \<open>The flights that a query asks for, among the flights behind a list of pointers.\<close>

definition matches :: "Flight heap \<Rightarrow> string \<Rightarrow> string \<Rightarrow> Time \<Rightarrow> Flight ptr \<Rightarrow> bool" where
  "matches fh source destination date p =
     (case load fh p of
        Inl e \<Rightarrow> False
      | Inr fl \<Rightarrow>
          Source fl = source \<and> Destination fl = destination \<and>
          Year (Departure fl) = Year date \<and> Month (Departure fl) = Month date \<and>
          Day (Departure fl) = Day date)"

text \<open>Sequences of \<^verbatim>\<open>AddFlight\<close> and \<^verbatim>\<open>AddAircraft\<close> calls on a Facade.\<close>

datatype facade_op = OpAddFlight "Flight ptr" | OpAddAircraft "Aircraft ptr"

fun facade_exec ::
  "(nat \<Rightarrow> nat) \<Rightarrow> AirlineManagementSystem \<times> memory \<Rightarrow> facade_op \<Rightarrow>
     AirlineManagementSystem \<times> memory" where
  "facade_exec grow (ams, m) (OpAddFlight p) = AddFlight grow m ams p"
| "facade_exec grow (ams, m) (OpAddAircraft p) = AddAircraft grow m ams p"

definition facade_run ::
  "(nat \<Rightarrow> nat) \<Rightarrow> AirlineManagementSystem \<times> memory \<Rightarrow> facade_op list \<Rightarrow>
     AirlineManagementSystem \<times> memory" where
  "facade_run grow c ops = foldl (facade_exec grow) c ops"

text \<open>A slice header that fits its array, as \<^verbatim>\<open>make\<close> and \<^verbatim>\<open>append\<close> return it.\<close>

definition wf_slice :: "'a ptr list heap \<Rightarrow> slice \<Rightarrow> bool" where
  "wf_slice arrs s \<longleftrightarrow>
     array s < length arrs \<and> len s \<le> cap s \<and> length (arrs ! array s) = cap s"

definition wf_facade :: "memory \<Rightarrow> AirlineManagementSystem \<Rightarrow> bool" where
  "wf_facade m ams \<longleftrightarrow>
     wf_slice (flight_arrays m) (flights ams) \<and> wf_slice (aircraft_arrays m) (aircrafts ams)"

section \<open>A worked example\<close>

text \<open>
  The scenario of the specification: an aircraft \<^verbatim>\<open>N1\<close> with two seats and the flight
  \<^verbatim>\<open>AA1\<close> from SFO to JFK that departs on 2024-01-01 at 08:00.
\<close>

definition departure_0800 :: Time where
  "departure_0800 = \<lparr>Year = 2024, Month = 1, Day = 1, Clock = 28800, Location = ''UTC''\<rparr>"

definition example_aircraft :: Aircraft where
  "example_aircraft = \<lparr>TailNumber = ''N1'', Model = ''A320'', TotalSeats = 2\<rparr>"

definition example_flight :: Flight where
  "example_flight =
     \<lparr>FlightNumber = ''AA1'', Source = ''SFO'', Destination = ''JFK'',
      Departure = departure_0800, Arrival = departure_0800, Aircraft = Ptr 0,
      Seats = [Ptr 0, Ptr 1]\<rparr>"

definition example_world :: world where
  "example_world =
     \<lparr>aircraft_heap = [example_aircraft],
      seat_heap =
        [\<lparr>Seat.SeatNumber = 1, IsBooked = False\<rparr>, \<lparr>Seat.SeatNumber = 2, IsBooked = False\<rparr>],
      flight_heap = [example_flight]\<rparr>"

text \<open>The same world once seat 1 is booked.\<close>

definition example_world_booked :: world where
  "example_world_booked =
     example_world\<lparr>seat_heap :=
        [\<lparr>Seat.SeatNumber = 1, IsBooked = True\<rparr>, \<lparr>Seat.SeatNumber = 2, IsBooked = False\<rparr>]\<rparr>"

text \<open>The same world once both seats are booked.\<close>

definition example_world_full :: world where
  "example_world_full =
     example_world\<lparr>seat_heap :=
        [\<lparr>Seat.SeatNumber = 1, IsBooked = True\<rparr>, \<lparr>Seat.SeatNumber = 2, IsBooked = True\<rparr>]\<rparr>"

text \<open>
  Four flights for a search on 2024-01-01 from SFO to JFK: \<^verbatim>\<open>AA1\<close>, one that departs a day
  later, one to another destination, and one that departs later on the same day. They
  are the elements of a slice of length 4 whose array has room for 8.
\<close>

definition query_date :: Time where
  "query_date = \<lparr>Year = 2024, Month = 1, Day = 1, Clock = 0, Location = ''UTC''\<rparr>"

definition example_flights :: "Flight heap" where
  "example_flights =
     [example_flight,
      example_flight\<lparr>FlightNumber := ''AA2'',
        Departure := departure_0800\<lparr>Day := 2\<rparr>, Arrival := departure_0800\<lparr>Day := 2\<rparr>\<rparr>,
      example_flight\<lparr>FlightNumber := ''AA3'', Destination := ''LAX''\<rparr>,
      example_flight\<lparr>FlightNumber := ''AA4'',
        Departure := departure_0800\<lparr>Clock := 72000\<rparr>, Arrival := departure_0800\<lparr>Day := 2\<rparr>\<rparr>]"

definition example_arrays :: "Flight ptr list heap" where
  "example_arrays = [[Ptr 0, Ptr 1, Ptr 2, Ptr 3, nil, nil, nil, nil]]"

definition example_search :: FlightSearch where
  "example_search = \<lparr>fs_flights = \<lparr>array = 0, len = 4, cap = 8\<rparr>\<rparr>"

text \<open>A Facade fresh from its constructor, in a process that has just started.\<close>

definition example_system :: AirlineManagementSystem where
  "example_system = fst (NewAirlineManagementSystem process_start empty_memory)"

definition example_memory :: memory where
  "example_memory = snd (snd (NewAirlineManagementSystem process_start empty_memory))"

text \<open>Three bookings, the third under the id of the first.\<close>

definition example_bookings :: "Booking heap" where
  "example_bookings =
     [\<lparr>BookingID = ''B1'', Flight = Ptr 0, Passenger = Ptr 0, SeatNumber = 1,
       BookingTime = departure_0800\<rparr>,
      \<lparr>BookingID = ''B2'', Flight = Ptr 0, Passenger = Ptr 1, SeatNumber = 2,
       BookingTime = departure_0800\<rparr>,
      \<lparr>BookingID = ''B1'', Flight = Ptr 0, Passenger = Ptr 2, SeatNumber = 2,
       BookingTime = departure_0800\<rparr>]"

section \<open>Heaps and indexing\<close>

lemma load_Inr_iff: "load h p = Inr v \<longleftrightarrow> (\<exists>a. p = Ptr a \<and> a < length h \<and> v = h ! a)"
  by (auto simp: load_def split: ptr.splits)

lemma load_Ptr: "a < length h \<Longrightarrow> load h (Ptr a) = Inr (h ! a)"
  by (simp add: load_def)

lemma load_app: "load h p = Inr v \<Longrightarrow> load (h @ h') p = Inr v"
  by (auto simp: load_Inr_iff nth_append)

lemma index_Inr_iff: "index xs i = Inr v \<longleftrightarrow> 0 \<le> i \<and> i < int (length xs) \<and> v = xs ! nat i"
  by (auto simp: index_def)

lemma load_Inl: "load h p = Inl e \<Longrightarrow> e = NilDereference"
  by (auto simp: load_def split: ptr.splits if_splits)

lemma load_not_nil: "load h p = Inr v \<Longrightarrow> p \<noteq> nil"
  by (auto simp: load_def)

section \<open>NewFlight\<close>

lemma take_update_snoc:
  "k < length xs \<Longrightarrow> take (Suc k) (xs[k := v]) = take k xs @ [v]"
  by (simp add: take_Suc_conv_app_nth)

lemma fill_seats_eq:
  "0 \<le> i \<Longrightarrow> i \<le> n \<Longrightarrow> length seats = nat n \<Longrightarrow>
   fill_seats i n seats sh =
     Inr (take (nat i) seats @ map Ptr [length sh..<length sh + (nat n - nat i)],
          sh @ map (\<lambda>k. \<lparr>Seat.SeatNumber = int k + 1, IsBooked = False\<rparr>) [nat i..<nat n])"
proof (induction i n seats sh rule: fill_seats.induct)
  case (1 i n seats sh)
  show ?case
  proof (cases "i < n")
    case False
    with "1.prems" have "i = n" by simp
    with "1.prems" show ?thesis by (subst fill_seats.simps) simp
  next
    case True
    define p :: "Seat ptr" where "p = Ptr (length sh)"
    define s where "s = \<lparr>Seat.SeatNumber = i + 1, IsBooked = False\<rparr>"
    define seats' where "seats' = seats[nat i := p]"
    from True "1.prems" have lt: "nat i < nat n" and len: "nat i < length seats" by simp_all
    have nw: "new sh s = (p, sh @ [s])" by (simp add: new_def p_def)
    have si: "set_index seats i p = Inr seats'"
      using True "1.prems" by (simp add: set_index_def seats'_def)
    have ih: "fill_seats (i + 1) n seats' (sh @ [s]) =
      Inr (take (nat (i + 1)) seats' @
             map Ptr [length (sh @ [s])..<length (sh @ [s]) + (nat n - nat (i + 1))],
           (sh @ [s]) @
             map (\<lambda>k. \<lparr>Seat.SeatNumber = int k + 1, IsBooked = False\<rparr>) [nat (i + 1)..<nat n])"
      using True "1.prems" nw si
      by (intro "1.IH"[OF True _ refl _]) (simp_all add: s_def seats'_def)
    have unf: "fill_seats i n seats sh = fill_seats (i + 1) n seats' (sh @ [s])"
      using True nw si by (subst fill_seats.simps) (simp add: s_def)
    have suc: "nat (i + 1) = Suc (nat i)" using "1.prems" by simp
    have tk: "take (Suc (nat i)) seats' = take (nat i) seats @ [p]"
      unfolding seats'_def using len by (rule take_update_snoc)
    have rng: "[length sh..<length sh + (nat n - nat i)] =
      length sh # [Suc (length sh)..<Suc (length sh) + (nat n - Suc (nat i))]"
    proof -
      have e: "length sh + (nat n - nat i) = Suc (length sh) + (nat n - Suc (nat i))"
        using lt by arith
      have "length sh < length sh + (nat n - nat i)" using lt by arith
      then have "[length sh..<length sh + (nat n - nat i)] =
        length sh # [Suc (length sh)..<length sh + (nat n - nat i)]"
        by (rule upt_conv_Cons)
      then show ?thesis by (simp only: e)
    qed
    have rng2: "[nat i..<nat n] = nat i # [Suc (nat i)..<nat n]"
      using lt by (simp add: upt_conv_Cons)
    have sv: "s = \<lparr>Seat.SeatNumber = int (nat i) + 1, IsBooked = False\<rparr>"
      using "1.prems" by (simp add: s_def)
    show ?thesis
      unfolding unf ih suc tk rng rng2 by (simp add: p_def sv)
  qed
qed

lemma NewFlight_eq:
  assumes "load (aircraft_heap w) ap = Inr ac" and "0 \<le> TotalSeats ac"
  shows "NewFlight w fno src dst dep arr ap =
    Inr (Ptr (length (flight_heap w)),
      w\<lparr>seat_heap := seat_heap w @
           map (\<lambda>k. \<lparr>Seat.SeatNumber = int k + 1, IsBooked = False\<rparr>) [0..<nat (TotalSeats ac)],
        flight_heap := flight_heap w @
          [\<lparr>FlightNumber = fno, Source = src, Destination = dst, Departure = dep,
            Arrival = arr, Aircraft = ap,
            Seats = map Ptr [length (seat_heap w)..<length (seat_heap w) + nat (TotalSeats ac)]\<rparr>]\<rparr>)"
  using assms
  by (simp add: NewFlight_def make_ptrs_def fill_seats_eq new_def)

text \<open>
  \<^verbatim>\<open>NewFlight\<close> panics only on a nil aircraft or a negative seat count, in both cases before
  it has allocated anything.
\<close>

lemma NewFlight_Inl_iff:
  "NewFlight w fno src dst dep arr ap = Inl e \<longleftrightarrow>
     load (aircraft_heap w) ap = Inl e \<or>
     (\<exists>ac. load (aircraft_heap w) ap = Inr ac \<and> TotalSeats ac < 0 \<and> e = MakeLenOutOfRange)"
proof (cases "load (aircraft_heap w) ap")
  case (Inl e')
  then show ?thesis by (simp add: NewFlight_def)
next
  case (Inr ac)
  show ?thesis
  proof (cases "TotalSeats ac < 0")
    case True
    with Inr show ?thesis by (auto simp: NewFlight_def make_ptrs_def)
  next
    case False
    then have "0 \<le> TotalSeats ac" by simp
    from NewFlight_eq[OF Inr this, of fno src dst dep arr] Inr False show ?thesis by simp
  qed
qed

lemma example_world_built:
  "NewFlight (snd (NewAircraft empty_world ''N1'' ''A320'' 2))
     ''AA1'' ''SFO'' ''JFK'' departure_0800 departure_0800 (Ptr 0) = Inr (Ptr 0, example_world)"
  by (simp add: NewFlight_def NewAircraft_def empty_world_def new_def load_def make_ptrs_def
      fill_seats.simps set_index_def example_world_def example_flight_def example_aircraft_def
      numeral_2_eq_2)

section \<open>BookSeat, one call at a time\<close>

lemma wf_flight_nth:
  assumes "wf_flight w fl" and "i < length (Seats fl)"
  shows "\<exists>a. Seats fl ! i = Ptr a \<and> a < length (seat_heap w) \<and>
              Seat.SeatNumber (seat_heap w ! a) = int i + 1"
proof -
  from assms(1) have "list_all
       (\<lambda>(i, sp). case load (seat_heap w) sp of Inl e \<Rightarrow> False
                   | Inr s \<Rightarrow> Seat.SeatNumber s = int i + 1)
       (enumerate 0 (Seats fl))"
    by (simp add: wf_flight_def)
  with assms(2) have "case load (seat_heap w) (Seats fl ! i) of Inl e \<Rightarrow> False
                   | Inr s \<Rightarrow> Seat.SeatNumber s = int i + 1"
    by (auto simp: list_all_length nth_enumerate_eq)
  then show ?thesis
    by (auto simp: load_Inr_iff split: sum.splits)
qed

lemma wf_world_flight:
  "wf_world w \<Longrightarrow> load (flight_heap w) f = Inr fl \<Longrightarrow> wf_flight w fl"
  by (auto simp: wf_world_def load_Inr_iff list_all_length)

lemma wf_flight_total:
  "wf_flight w fl \<Longrightarrow> load (aircraft_heap w) (Aircraft fl) = Inr ac \<Longrightarrow>
   TotalSeats ac = int (length (Seats fl))"
  by (simp add: wf_flight_def)

lemma BookSeat_out_of_range:
  "load (flight_heap w) f = Inr fl \<Longrightarrow> n < 1 \<or> n > int (length (Seats fl)) \<Longrightarrow>
   BookSeat w f n = Inr (False, w)"
  by (auto simp: BookSeat_def)

lemma BookSeat_in_range:
  assumes "load (flight_heap w) f = Inr fl" and "1 \<le> n" and "n \<le> int (length (Seats fl))"
    and "Seats fl ! nat (n - 1) = Ptr a" and "a < length (seat_heap w)"
  shows "BookSeat w f n =
    (if IsBooked (seat_heap w ! a) then Inr (False, w)
     else Inr (True, w\<lparr>seat_heap := (seat_heap w)[a := (seat_heap w ! a)\<lparr>IsBooked := True\<rparr>]\<rparr>))"
  using assms by (simp add: BookSeat_def index_def load_def store_def)

lemma seat_at_in_range:
  assumes "load (flight_heap w) f = Inr fl" and "1 \<le> n" and "n \<le> int (length (Seats fl))"
    and "Seats fl ! nat (n - 1) = Ptr a" and "a < length (seat_heap w)"
  shows "seat_at w f n = Some (seat_heap w ! a)"
  using assms by (simp add: seat_at_def index_def load_def)

lemma seat_at_out_of_range:
  "load (flight_heap w) f = Inr fl \<Longrightarrow> n < 1 \<or> n > int (length (Seats fl)) \<Longrightarrow>
   seat_at w f n = None"
  by (auto simp: seat_at_def index_def)
lemma BookSeat_TrueD:
  assumes "BookSeat w f n = Inr (True, w')"
  shows "\<exists>fl a. load (flight_heap w) f = Inr fl \<and> 1 \<le> n \<and> n \<le> int (length (Seats fl)) \<and>
           Seats fl ! nat (n - 1) = Ptr a \<and> a < length (seat_heap w) \<and>
           \<not> IsBooked (seat_heap w ! a) \<and>
           w' = w\<lparr>seat_heap := (seat_heap w)[a := (seat_heap w ! a)\<lparr>IsBooked := True\<rparr>]\<rparr>"
  using assms
  by (auto simp: BookSeat_def index_def load_def store_def split: sum.splits if_splits ptr.splits)

lemma BookSeat_FalseD:
  assumes "BookSeat w f n = Inr (False, w')"
  shows "w' = w"
  using assms
  by (auto simp: BookSeat_def index_def load_def store_def split: sum.splits if_splits ptr.splits)

lemma seat_at_SomeD:
  assumes "seat_at w f n = Some s"
  shows "\<exists>fl a. load (flight_heap w) f = Inr fl \<and> 1 \<le> n \<and> n \<le> int (length (Seats fl)) \<and>
           Seats fl ! nat (n - 1) = Ptr a \<and> a < length (seat_heap w) \<and> s = seat_heap w ! a"
  using assms
  by (auto simp: seat_at_def index_def load_def split: sum.splits if_splits ptr.splits)

lemma wf_example_world: "wf_world example_world"
  by (simp add: wf_world_def wf_flight_def example_world_def example_flight_def
      example_aircraft_def load_def)

lemma load_example_flight: "load (flight_heap example_world) (Ptr 0) = Inr example_flight"
  by (simp add: example_world_def load_def)

lemma load_example_aircraft:
  "load (aircraft_heap example_world) (Aircraft example_flight) = Inr example_aircraft"
  by (simp add: example_world_def example_flight_def load_def)

lemma BookSeat_example: "BookSeat example_world (Ptr 0) 1 = Inr (True, example_world_booked)"
  by (simp add: BookSeat_def index_def load_def store_def example_world_def
      example_world_booked_def example_flight_def)

text \<open>
  Claim C2. In a well-formed world, \<^verbatim>\<open>BookSeat\<close> on a flight never panics; it returns true
  exactly when the seat number lies in \<open>1..TotalSeats\<close> of the flight's aircraft and that
  seat is not booked at the time of the call. When it returns true the seat is booked
  afterwards; when it returns false the world is the one before the call.
\<close>

theorem BookSeat_contract:
  assumes wf: "wf_world w" and f: "load (flight_heap w) f = Inr fl"
    and ac: "load (aircraft_heap w) (Aircraft fl) = Inr ac"
  shows "\<exists>b w'. BookSeat w f n = Inr (b, w') \<and>
           (b \<longleftrightarrow> 1 \<le> n \<and> n \<le> TotalSeats ac \<and>
                  map_option IsBooked (seat_at w f n) = Some False) \<and>
           (if b then map_option IsBooked (seat_at w' f n) = Some True else w' = w)"
proof -
  from wf f have wfl: "wf_flight w fl" by (rule wf_world_flight)
  from wfl ac have tot: "TotalSeats ac = int (length (Seats fl))" by (rule wf_flight_total)
  show ?thesis
  proof (cases "n < 1 \<or> n > int (length (Seats fl))")
    case True
    with f have "BookSeat w f n = Inr (False, w)" by (rule BookSeat_out_of_range)
    with True tot show ?thesis by auto
  next
    case False
    then have rng: "1 \<le> n" "n \<le> int (length (Seats fl))" by simp_all
    then have "nat (n - 1) < length (Seats fl)" by simp
    with wfl obtain a where a: "Seats fl ! nat (n - 1) = Ptr a" "a < length (seat_heap w)"
      using wf_flight_nth by blast
    note bs = BookSeat_in_range[OF f rng a]
    note sa = seat_at_in_range[OF f rng a]
    show ?thesis
    proof (cases "IsBooked (seat_heap w ! a)")
      case True
      with bs sa show ?thesis by auto
    next
      case nb: False
      let ?w' = "w\<lparr>seat_heap := (seat_heap w)[a := (seat_heap w ! a)\<lparr>IsBooked := True\<rparr>]\<rparr>"
      from f have f': "load (flight_heap ?w') f = Inr fl" by simp
      from a have "a < length (seat_heap ?w')" by simp
      with seat_at_in_range[OF f' rng a(1)] a
      have "seat_at ?w' f n = Some ((seat_heap w ! a)\<lparr>IsBooked := True\<rparr>)" by simp
      with bs sa nb rng tot show ?thesis by auto
    qed
  qed
qed

theorem BookSeat_contract_witness:
  "wf_world example_world \<and>
   load (flight_heap example_world) (Ptr 0) = Inr example_flight \<and>
   load (aircraft_heap example_world) (Aircraft example_flight) = Inr example_aircraft \<and>
   (\<exists>b w'. BookSeat example_world (Ptr 0) 1 = Inr (b, w') \<and>
      (b \<longleftrightarrow> 1 \<le> (1::int) \<and> 1 \<le> TotalSeats example_aircraft \<and>
         map_option IsBooked (seat_at example_world (Ptr 0) 1) = Some False) \<and>
      (if b then map_option IsBooked (seat_at w' (Ptr 0) 1) = Some True
       else w' = example_world))"
  using wf_example_world load_example_flight load_example_aircraft
    BookSeat_contract[OF wf_example_world load_example_flight load_example_aircraft, of 1]
  by blast

text \<open>
  Claim C9. A \<^verbatim>\<open>BookSeat\<close> call that returns true leaves the heap of flights (so every field
  of every flight, the aircraft pointer included) and the heap of aircraft as they were.
  In the heap of seats it sets the flag of one seat object and changes nothing else, so
  every other seat of the flight is as it was, and the seat it books keeps its number.
\<close>

theorem BookSeat_frame:
  assumes wf: "wf_world w" and bs: "BookSeat w f n = Inr (True, w')"
  shows "flight_heap w' = flight_heap w \<and> aircraft_heap w' = aircraft_heap w \<and>
         (\<exists>a. a < length (seat_heap w) \<and>
              seat_heap w' = (seat_heap w)[a := (seat_heap w ! a)\<lparr>IsBooked := True\<rparr>]) \<and>
         (\<forall>m. m \<noteq> n \<longrightarrow> seat_at w' f m = seat_at w f m) \<and>
         map_option Seat.SeatNumber (seat_at w' f n) = map_option Seat.SeatNumber (seat_at w f n)"
proof -
  from BookSeat_TrueD[OF bs] obtain fl a where
    f: "load (flight_heap w) f = Inr fl" and rng: "1 \<le> n" "n \<le> int (length (Seats fl))" and
    a: "Seats fl ! nat (n - 1) = Ptr a" "a < length (seat_heap w)" and
    w': "w' = w\<lparr>seat_heap := (seat_heap w)[a := (seat_heap w ! a)\<lparr>IsBooked := True\<rparr>]\<rparr>"
    by blast
  from wf f have wfl: "wf_flight w fl" by (rule wf_world_flight)
  then have dist: "distinct (Seats fl)" by (simp add: wf_flight_def)
  from f w' have f': "load (flight_heap w') f = Inr fl" by simp
  from a w' have a': "a < length (seat_heap w')" by simp
  have other: "seat_at w' f m = seat_at w f m" if "m \<noteq> n" for m
  proof (cases "m < 1 \<or> m > int (length (Seats fl))")
    case True
    with f f' show ?thesis by (simp add: seat_at_out_of_range)
  next
    case False
    then have m: "1 \<le> m" "m \<le> int (length (Seats fl))" by simp_all
    then have lt: "nat (m - 1) < length (Seats fl)" by simp
    with wfl obtain b where b: "Seats fl ! nat (m - 1) = Ptr b" "b < length (seat_heap w)"
      using wf_flight_nth by blast
    from that m rng have "nat (m - 1) \<noteq> nat (n - 1)" by simp
    moreover from rng have "nat (n - 1) < length (Seats fl)" by simp
    ultimately have "Seats fl ! nat (m - 1) \<noteq> Seats fl ! nat (n - 1)"
      using dist lt by (simp add: nth_eq_iff_index_eq)
    with a b have ne: "b \<noteq> a" by auto
    from b w' have b': "b < length (seat_heap w')" by simp
    have "seat_at w' f m = Some (seat_heap w' ! b)"
      using f' m b(1) b' by (rule seat_at_in_range)
    moreover have "seat_at w f m = Some (seat_heap w ! b)"
      using f m b by (rule seat_at_in_range)
    moreover from ne w' have "seat_heap w' ! b = seat_heap w ! b" by simp
    ultimately show ?thesis by simp
  qed
  have "seat_at w' f n = Some (seat_heap w' ! a)"
    using f' rng a(1) a' by (rule seat_at_in_range)
  moreover have "seat_at w f n = Some (seat_heap w ! a)"
    using f rng a by (rule seat_at_in_range)
  moreover from a w' have "Seat.SeatNumber (seat_heap w' ! a) = Seat.SeatNumber (seat_heap w ! a)"
    by simp
  ultimately have same: "map_option Seat.SeatNumber (seat_at w' f n) =
    map_option Seat.SeatNumber (seat_at w f n)" by simp
  from a(2) w' have one: "\<exists>a. a < length (seat_heap w) \<and>
      seat_heap w' = (seat_heap w)[a := (seat_heap w ! a)\<lparr>IsBooked := True\<rparr>]"
    by auto
  from w' one other same show ?thesis by simp
qed

theorem BookSeat_frame_witness:
  "wf_world example_world \<and>
   BookSeat example_world (Ptr 0) 1 = Inr (True, example_world_booked) \<and>
   flight_heap example_world_booked = flight_heap example_world \<and>
   aircraft_heap example_world_booked = aircraft_heap example_world \<and>
   seat_at example_world_booked (Ptr 0) 2 = seat_at example_world (Ptr 0) 2 \<and>
   map_option Seat.SeatNumber (seat_at example_world_booked (Ptr 0) 1) =
     map_option Seat.SeatNumber (seat_at example_world (Ptr 0) 1)"
  using wf_example_world BookSeat_example
    BookSeat_frame[OF wf_example_world BookSeat_example]
  by simp

section \<open>Sequences of operations\<close>

lemma evolves_refl: "evolves w w"
  by (simp add: evolves_def)

lemma evolves_trans: "evolves w1 w2 \<Longrightarrow> evolves w2 w3 \<Longrightarrow> evolves w1 w3"
  unfolding evolves_def by (auto intro: prefix_order.trans)

lemma load_prefix: "prefix h h' \<Longrightarrow> load h p = Inr v \<Longrightarrow> load h' p = Inr v"
  by (auto simp: prefix_def load_app)

lemma NewFlight_InrD:
  assumes "NewFlight w fno src dst dep arr ap = Inr (f, w1)"
  shows "\<exists>ac. load (aircraft_heap w) ap = Inr ac \<and> 0 \<le> TotalSeats ac"
  using assms by (auto simp: NewFlight_def make_ptrs_def split: sum.splits if_splits)

lemma NewAircraft_evolves: "evolves w (snd (NewAircraft w t m n))"
  by (simp add: NewAircraft_def new_def evolves_def)

lemma NewFlight_evolves:
  assumes "NewFlight w fno src dst dep arr ap = Inr (f, w1)"
  shows "evolves w w1"
proof -
  from NewFlight_InrD[OF assms] obtain ac where
    "load (aircraft_heap w) ap = Inr ac" "0 \<le> TotalSeats ac" by blast
  from NewFlight_eq[OF this, of fno src dst dep arr] assms
  show ?thesis by (auto simp: evolves_def nth_append)
qed

lemma BookSeat_evolves:
  assumes "BookSeat w f n = Inr (b, w1)"
  shows "evolves w w1"
proof (cases b)
  case True
  with assms BookSeat_TrueD[of w f n w1] show ?thesis
    by (auto simp: evolves_def nth_list_update)
next
  case False
  with assms BookSeat_FalseD[of w f n w1] show ?thesis by (simp add: evolves_refl)
qed

lemma exec_evolves: "evolves w (exec w x)"
proof (cases x)
  case (OpNewAircraft t m n)
  then show ?thesis by (simp add: NewAircraft_evolves)
next
  case (OpNewFlight fno src dst dep arr ap)
  then show ?thesis
    by (auto simp: evolves_refl NewFlight_evolves split: sum.splits)
next
  case (OpBookSeat f n)
  then show ?thesis
    by (auto simp: evolves_refl BookSeat_evolves split: sum.splits)
qed

lemma exec_all_evolves: "evolves w (exec_all w ops)"
  unfolding exec_all_def
proof (induction ops arbitrary: w)
  case Nil
  show ?case by (simp add: evolves_refl)
next
  case (Cons x xs)
  have "evolves w (exec w x)" by (rule exec_evolves)
  moreover have "evolves (exec w x) (foldl exec (exec w x) xs)" by (rule Cons.IH)
  ultimately show ?case by (simp add: evolves_trans)
qed

lemma exec_all_append: "exec_all w (ops @ ops') = exec_all (exec_all w ops) ops'"
  by (simp add: exec_all_def)

lemma seat_at_evolves:
  assumes ev: "evolves w w'" and s: "seat_at w f n = Some s"
  shows "\<exists>s'. seat_at w' f n = Some s' \<and> Seat.SeatNumber s' = Seat.SeatNumber s \<and>
               (IsBooked s \<longrightarrow> IsBooked s')"
proof -
  from seat_at_SomeD[OF s] obtain fl a where
    f: "load (flight_heap w) f = Inr fl" and rng: "1 \<le> n" "n \<le> int (length (Seats fl))" and
    a: "Seats fl ! nat (n - 1) = Ptr a" "a < length (seat_heap w)" and sv: "s = seat_heap w ! a"
    by blast
  from ev f have f': "load (flight_heap w') f = Inr fl"
    by (auto simp: evolves_def intro: load_prefix)
  from ev a have a': "a < length (seat_heap w')" by (simp add: evolves_def)
  have "seat_at w' f n = Some (seat_heap w' ! a)"
    using f' rng a(1) a' by (rule seat_at_in_range)
  with ev a sv show ?thesis by (simp add: evolves_def)
qed

lemma seat_at_NewFlight:
  assumes ac: "load (aircraft_heap w) ap = Inr ac" and nn: "0 \<le> TotalSeats ac"
    and nf: "NewFlight w fno src dst dep arr ap = Inr (f, w1)"
  shows "seat_at w1 f n =
    (if 1 \<le> n \<and> n \<le> TotalSeats ac then Some \<lparr>Seat.SeatNumber = n, IsBooked = False\<rparr> else None)"
proof -
  let ?N = "nat (TotalSeats ac)"
  let ?L = "length (seat_heap w)"
  let ?fl = "\<lparr>FlightNumber = fno, Source = src, Destination = dst, Departure = dep,
            Arrival = arr, Aircraft = ap, Seats = map Ptr [?L..<?L + ?N]\<rparr>"
  from NewFlight_eq[OF ac nn, of fno src dst dep arr] nf
  have f: "f = Ptr (length (flight_heap w))"
    and sh: "seat_heap w1 = seat_heap w @
           map (\<lambda>k. \<lparr>Seat.SeatNumber = int k + 1, IsBooked = False\<rparr>) [0..<?N]"
    and fh: "flight_heap w1 = flight_heap w @ [?fl]"
    by auto
  from f fh have ld: "load (flight_heap w1) f = Inr ?fl" by (simp add: load_def)
  show ?thesis
  proof (cases "1 \<le> n \<and> n \<le> TotalSeats ac")
    case False
    with nn have "n < 1 \<or> n > int (length (Seats ?fl))" by auto
    with ld have "seat_at w1 f n = None" by (rule seat_at_out_of_range)
    with False show ?thesis by simp
  next
    case True
    then have k: "nat (n - 1) < ?N" by simp
    have r1: "1 \<le> n" "n \<le> int (length (Seats ?fl))" using True by simp_all
    have r2: "Seats ?fl ! nat (n - 1) = Ptr (?L + nat (n - 1))" using k by simp
    have r3: "?L + nat (n - 1) < length (seat_heap w1)" using k sh by simp
    have "seat_at w1 f n = Some (seat_heap w1 ! (?L + nat (n - 1)))"
      using ld r1 r2 r3 by (rule seat_at_in_range)
    moreover have "seat_heap w1 ! (?L + nat (n - 1)) = \<lparr>Seat.SeatNumber = n, IsBooked = False\<rparr>"
      using k True by (simp add: sh)
    ultimately show ?thesis using True by simp
  qed
qed

text \<open>
  Every world that the operations reach from the empty one is well-formed.
\<close>

lemma seat_case_iff:
  "(case load h sp of Inl e \<Rightarrow> False | Inr s \<Rightarrow> Seat.SeatNumber s = k) \<longleftrightarrow>
   (\<exists>a. sp = Ptr a \<and> a < length h \<and> Seat.SeatNumber (h ! a) = k)"
  by (cases sp) (simp_all add: load_def)

lemma aircraft_case_iff:
  "(case load h p of Inl e \<Rightarrow> False | Inr ac \<Rightarrow> TotalSeats ac = k) \<longleftrightarrow>
   (\<exists>ac. load h p = Inr ac \<and> TotalSeats ac = k)"
  by (cases "load h p") simp_all

lemma wf_flight_iff:
  "wf_flight w fl \<longleftrightarrow>
     distinct (Seats fl) \<and>
     (\<forall>i < length (Seats fl). \<exists>a. Seats fl ! i = Ptr a \<and> a < length (seat_heap w) \<and>
        Seat.SeatNumber (seat_heap w ! a) = int i + 1) \<and>
     (\<exists>ac. load (aircraft_heap w) (Aircraft fl) = Inr ac \<and>
        TotalSeats ac = int (length (Seats fl)))"
  by (simp add: wf_flight_def list_all_length nth_enumerate_eq seat_case_iff aircraft_case_iff)

lemma wf_flight_evolves:
  assumes ev: "evolves w w'" and wf: "wf_flight w fl"
  shows "wf_flight w' fl"
proof -
  from wf have d: "distinct (Seats fl)"
    and s: "\<And>i. i < length (Seats fl) \<Longrightarrow> \<exists>a. Seats fl ! i = Ptr a \<and>
        a < length (seat_heap w) \<and> Seat.SeatNumber (seat_heap w ! a) = int i + 1"
    and ac: "\<exists>ac. load (aircraft_heap w) (Aircraft fl) = Inr ac \<and>
        TotalSeats ac = int (length (Seats fl))"
    by (simp_all add: wf_flight_iff)
  have s': "\<exists>a. Seats fl ! i = Ptr a \<and> a < length (seat_heap w') \<and>
      Seat.SeatNumber (seat_heap w' ! a) = int i + 1" if "i < length (Seats fl)" for i
  proof -
    from s[OF that] obtain a where a: "Seats fl ! i = Ptr a" "a < length (seat_heap w)"
      "Seat.SeatNumber (seat_heap w ! a) = int i + 1" by blast
    with ev have "a < length (seat_heap w')" "Seat.SeatNumber (seat_heap w' ! a) = int i + 1"
      by (simp_all add: evolves_def)
    with a(1) show ?thesis by blast
  qed
  from ev ac have ac': "\<exists>ac. load (aircraft_heap w') (Aircraft fl) = Inr ac \<and>
        TotalSeats ac = int (length (Seats fl))"
    by (auto simp: evolves_def intro: load_prefix)
  from d s' ac' show ?thesis by (simp add: wf_flight_iff)
qed

lemma wf_world_iff: "wf_world w \<longleftrightarrow> (\<forall>fl \<in> set (flight_heap w). wf_flight w fl)"
  by (simp add: wf_world_def list_all_iff)

lemma wf_world_same_flights:
  assumes "wf_world w" and "evolves w w'" and "flight_heap w' = flight_heap w"
  shows "wf_world w'"
  using assms by (auto simp: wf_world_iff intro: wf_flight_evolves)

lemma wf_world_NewFlight:
  assumes wf: "wf_world w" and nf: "NewFlight w fno src dst dep arr ap = Inr (f, w1)"
  shows "wf_world w1"
proof -
  from NewFlight_InrD[OF nf] obtain ac where
    ac: "load (aircraft_heap w) ap = Inr ac" and nn: "0 \<le> TotalSeats ac" by blast
  let ?N = "nat (TotalSeats ac)"
  let ?L = "length (seat_heap w)"
  let ?fl = "\<lparr>FlightNumber = fno, Source = src, Destination = dst, Departure = dep,
            Arrival = arr, Aircraft = ap, Seats = map Ptr [?L..<?L + ?N]\<rparr>"
  from NewFlight_eq[OF ac nn, of fno src dst dep arr] nf
  have sh: "seat_heap w1 = seat_heap w @
           map (\<lambda>k. \<lparr>Seat.SeatNumber = int k + 1, IsBooked = False\<rparr>) [0..<?N]"
    and fh: "flight_heap w1 = flight_heap w @ [?fl]"
    and ah: "aircraft_heap w1 = aircraft_heap w"
    by auto
  have ev: "evolves w w1" using nf by (rule NewFlight_evolves)
  have old: "wf_flight w1 fl" if "fl \<in> set (flight_heap w)" for fl
    using wf that ev by (auto simp: wf_world_iff intro: wf_flight_evolves)
  have "distinct (Seats ?fl)" by (simp add: distinct_map inj_on_def)
  moreover have "\<exists>a. Seats ?fl ! i = Ptr a \<and> a < length (seat_heap w1) \<and>
      Seat.SeatNumber (seat_heap w1 ! a) = int i + 1" if "i < length (Seats ?fl)" for i
    using that by (simp add: sh)
  moreover have "\<exists>ac. load (aircraft_heap w1) (Aircraft ?fl) = Inr ac \<and>
        TotalSeats ac = int (length (Seats ?fl))"
    using ac nn by (simp add: ah)
  ultimately have "wf_flight w1 ?fl" unfolding wf_flight_iff by blast
  with old fh show ?thesis by (auto simp: wf_world_iff)
qed

lemma wf_world_exec: "wf_world w \<Longrightarrow> wf_world (exec w x)"
proof (cases x)
  case (OpNewAircraft t m n)
  assume "wf_world w"
  moreover have "evolves w (exec w x)" by (rule exec_evolves)
  moreover have "flight_heap (exec w x) = flight_heap w"
    by (simp add: OpNewAircraft NewAircraft_def new_def)
  ultimately show ?thesis by (rule wf_world_same_flights)
next
  case (OpNewFlight fno src dst dep arr ap)
  assume wf: "wf_world w"
  show ?thesis
  proof (cases "NewFlight w fno src dst dep arr ap")
    case (Inl e)
    with OpNewFlight wf show ?thesis by simp
  next
    case (Inr r)
    obtain f w1 where r: "r = (f, w1)" by (cases r)
    with Inr wf_world_NewFlight[OF wf, of fno src dst dep arr ap f w1] OpNewFlight
    show ?thesis by simp
  qed
next
  case (OpBookSeat f n)
  assume "wf_world w"
  moreover have "evolves w (exec w x)" by (rule exec_evolves)
  moreover have "flight_heap (exec w x) = flight_heap w"
  proof (cases "BookSeat w f n")
    case (Inl e)
    with OpBookSeat show ?thesis by simp
  next
    case (Inr r)
    obtain b w1 where r: "r = (b, w1)" by (cases r)
    show ?thesis
    proof (cases b)
      case True
      with Inr r BookSeat_TrueD[of w f n w1] OpBookSeat show ?thesis by auto
    next
      case False
      with Inr r BookSeat_FalseD[of w f n w1] OpBookSeat show ?thesis by auto
    qed
  qed
  ultimately show ?thesis by (rule wf_world_same_flights)
qed

lemma wf_world_exec_all: "wf_world w \<Longrightarrow> wf_world (exec_all w ops)"
  unfolding exec_all_def
  by (induction ops arbitrary: w) (simp_all add: wf_world_exec)

lemma wf_empty_world: "wf_world empty_world"
  by (simp add: wf_world_def empty_world_def)

lemma wf_world_reachable: "wf_world (exec_all empty_world ops)"
  by (simp add: wf_world_exec_all wf_empty_world)

lemma BookSeat_example_again:
  "BookSeat example_world_booked (Ptr 0) 1 = Inr (False, example_world_booked)"
  by (simp add: BookSeat_def index_def load_def store_def example_world_def
      example_world_booked_def example_flight_def)

lemma seat_at_example:
  "seat_at example_world (Ptr 0) 1 = Some \<lparr>Seat.SeatNumber = 1, IsBooked = False\<rparr>"
  by (simp add: seat_at_def index_def load_def example_world_def example_flight_def)

lemma seat_at_example_booked:
  "seat_at example_world_booked (Ptr 0) 1 = Some \<lparr>Seat.SeatNumber = 1, IsBooked = True\<rparr>"
  by (simp add: seat_at_def index_def load_def example_world_def example_world_booked_def
      example_flight_def)

lemma exec_all_example:
  "exec_all example_world [OpBookSeat (Ptr 0) 1] = example_world_booked"
  by (simp add: exec_all_def BookSeat_example)

text \<open>
  Claim C4. The flight that \<^verbatim>\<open>NewFlight\<close> returns has exactly the seats numbered
  \<open>1..TotalSeats\<close> of its aircraft, all unbooked. After any sequence of operations
  (\<^verbatim>\<open>NewAircraft\<close>, \<^verbatim>\<open>NewFlight\<close>, \<^verbatim>\<open>BookSeat\<close> on any flight with any argument) the flight
  object is the same, it has a seat numbered \<open>n\<close> exactly for \<open>n\<close> in \<open>1..TotalSeats\<close>, that
  seat carries the number \<open>n\<close>, and a seat that is booked stays booked under every
  further sequence of operations.
\<close>

theorem seats_fixed_and_monotone:
  assumes nf: "NewFlight w fno src dst dep arr ap = Inr (f, w1)"
  shows "\<exists>fl ac. load (aircraft_heap w) ap = Inr ac \<and> load (flight_heap w1) f = Inr fl \<and>
     (\<forall>n. seat_at w1 f n =
        (if 1 \<le> n \<and> n \<le> TotalSeats ac
         then Some \<lparr>Seat.SeatNumber = n, IsBooked = False\<rparr> else None)) \<and>
     (\<forall>ops. load (flight_heap (exec_all w1 ops)) f = Inr fl \<and>
        (\<forall>n. case seat_at (exec_all w1 ops) f n of
                None \<Rightarrow> \<not> (1 \<le> n \<and> n \<le> TotalSeats ac)
              | Some s \<Rightarrow>
                  1 \<le> n \<and> n \<le> TotalSeats ac \<and> Seat.SeatNumber s = n \<and>
                  (IsBooked s \<longrightarrow>
                     (\<forall>ops'. map_option IsBooked (seat_at (exec_all w1 (ops @ ops')) f n) =
                        Some True))))"
proof -
  from NewFlight_InrD[OF nf] obtain ac where
    ac: "load (aircraft_heap w) ap = Inr ac" and nn: "0 \<le> TotalSeats ac" by blast
  note init = seat_at_NewFlight[OF ac nn nf]
  from NewFlight_eq[OF ac nn, of fno src dst dep arr] nf
  obtain fl where fl: "load (flight_heap w1) f = Inr fl"
    and len: "int (length (Seats fl)) = TotalSeats ac"
    using nn by (auto simp: load_def)
  have later: "load (flight_heap (exec_all w1 ops)) f = Inr fl \<and>
        (\<forall>n. case seat_at (exec_all w1 ops) f n of
                None \<Rightarrow> \<not> (1 \<le> n \<and> n \<le> TotalSeats ac)
              | Some s \<Rightarrow>
                  1 \<le> n \<and> n \<le> TotalSeats ac \<and> Seat.SeatNumber s = n \<and>
                  (IsBooked s \<longrightarrow>
                     (\<forall>ops'. map_option IsBooked (seat_at (exec_all w1 (ops @ ops')) f n) =
                        Some True)))" for ops
  proof -
    let ?w2 = "exec_all w1 ops"
    have ev: "evolves w1 ?w2" by (rule exec_all_evolves)
    with fl have fl2: "load (flight_heap ?w2) f = Inr fl"
      by (auto simp: evolves_def intro: load_prefix)
    have seat: "case seat_at ?w2 f n of
                None \<Rightarrow> \<not> (1 \<le> n \<and> n \<le> TotalSeats ac)
              | Some s \<Rightarrow>
                  1 \<le> n \<and> n \<le> TotalSeats ac \<and> Seat.SeatNumber s = n \<and>
                  (IsBooked s \<longrightarrow>
                     (\<forall>ops'. map_option IsBooked (seat_at (exec_all w1 (ops @ ops')) f n) =
                        Some True))" for n
    proof (cases "1 \<le> n \<and> n \<le> TotalSeats ac")
      case False
      with len have "n < 1 \<or> n > int (length (Seats fl))" by auto
      with fl2 have "seat_at ?w2 f n = None" by (rule seat_at_out_of_range)
      with False show ?thesis by simp
    next
      case True
      with init[of n] have "seat_at w1 f n = Some \<lparr>Seat.SeatNumber = n, IsBooked = False\<rparr>"
        by simp
      from seat_at_evolves[OF ev this] obtain s where
        s: "seat_at ?w2 f n = Some s" "Seat.SeatNumber s = n" by auto
      have "map_option IsBooked (seat_at (exec_all w1 (ops @ ops')) f n) = Some True"
        if "IsBooked s" for ops'
      proof -
        have "evolves ?w2 (exec_all ?w2 ops')" by (rule exec_all_evolves)
        from seat_at_evolves[OF this s(1)] that show ?thesis
          by (auto simp: exec_all_append)
      qed
      with s True show ?thesis by simp
    qed
    from fl2 seat show ?thesis by blast
  qed
  from ac fl init later show ?thesis by blast
qed

theorem seats_fixed_and_monotone_witness:
  "NewFlight (snd (NewAircraft empty_world ''N1'' ''A320'' 2))
     ''AA1'' ''SFO'' ''JFK'' departure_0800 departure_0800 (Ptr 0) = Inr (Ptr 0, example_world) \<and>
   seat_at example_world (Ptr 0) 2 = Some \<lparr>Seat.SeatNumber = 2, IsBooked = False\<rparr> \<and>
   seat_at example_world (Ptr 0) 3 = None \<and>
   load (flight_heap (exec_all example_world [OpBookSeat (Ptr 0) 1])) (Ptr 0) =
     load (flight_heap example_world) (Ptr 0) \<and>
   map_option IsBooked
     (seat_at (exec_all example_world ([OpBookSeat (Ptr 0) 1] @ [OpBookSeat (Ptr 0) 1])) (Ptr 0) 1) =
     Some True"
proof -
  from seats_fixed_and_monotone[OF example_world_built] obtain fl ac where
    ac: "load (aircraft_heap (snd (NewAircraft empty_world ''N1'' ''A320'' 2))) (Ptr 0) = Inr ac"
    and fl: "load (flight_heap example_world) (Ptr 0) = Inr fl"
    and init: "\<And>n. seat_at example_world (Ptr 0) n =
        (if 1 \<le> n \<and> n \<le> TotalSeats ac
         then Some \<lparr>Seat.SeatNumber = n, IsBooked = False\<rparr> else None)"
    and later: "\<And>ops. load (flight_heap (exec_all example_world ops)) (Ptr 0) = Inr fl \<and>
        (\<forall>n. case seat_at (exec_all example_world ops) (Ptr 0) n of
                None \<Rightarrow> \<not> (1 \<le> n \<and> n \<le> TotalSeats ac)
              | Some s \<Rightarrow>
                  1 \<le> n \<and> n \<le> TotalSeats ac \<and> Seat.SeatNumber s = n \<and>
                  (IsBooked s \<longrightarrow>
                     (\<forall>ops'. map_option IsBooked
                        (seat_at (exec_all example_world (ops @ ops')) (Ptr 0) n) = Some True)))"
    by blast
  from ac have tot: "TotalSeats ac = 2"
    by (auto simp: NewAircraft_def empty_world_def new_def load_def)
  from init[of 2] tot have s2: "seat_at example_world (Ptr 0) 2 =
    Some \<lparr>Seat.SeatNumber = 2, IsBooked = False\<rparr>" by simp
  from init[of 3] tot have s3: "seat_at example_world (Ptr 0) 3 = None" by simp
  from later[of "[OpBookSeat (Ptr 0) 1]"] fl
  have same: "load (flight_heap (exec_all example_world [OpBookSeat (Ptr 0) 1])) (Ptr 0) =
     load (flight_heap example_world) (Ptr 0)" by simp
  from later[of "[OpBookSeat (Ptr 0) 1]"]
  have "case seat_at (exec_all example_world [OpBookSeat (Ptr 0) 1]) (Ptr 0) 1 of
                None \<Rightarrow> \<not> (1 \<le> (1::int) \<and> 1 \<le> TotalSeats ac)
              | Some s \<Rightarrow>
                  1 \<le> (1::int) \<and> 1 \<le> TotalSeats ac \<and> Seat.SeatNumber s = 1 \<and>
                  (IsBooked s \<longrightarrow>
                     (\<forall>ops'. map_option IsBooked
                        (seat_at (exec_all example_world ([OpBookSeat (Ptr 0) 1] @ ops')) (Ptr 0) 1) =
                          Some True))"
    by blast
  then have mono: "map_option IsBooked
     (seat_at (exec_all example_world ([OpBookSeat (Ptr 0) 1] @ [OpBookSeat (Ptr 0) 1])) (Ptr 0) 1) =
     Some True"
    by (simp add: exec_all_example seat_at_example_booked)
  from example_world_built s2 s3 same mono show ?thesis by blast
qed

text \<open>
  Claim C5. Two \<^verbatim>\<open>BookSeat\<close> calls in succession on a seat that exists and is not booked
  return true, then false. Once a call on an existing seat has returned false (which it
  does only when the seat is booked), a call on that seat returns false after any
  further sequence of operations, and changes nothing.
\<close>

theorem BookSeat_twice:
  "(seat_at w f n = Some s \<and> \<not> IsBooked s \<longrightarrow>
      (\<exists>w1. BookSeat w f n = Inr (True, w1) \<and> BookSeat w1 f n = Inr (False, w1))) \<and>
   (seat_at w f n = Some s \<and> BookSeat w f n = Inr (False, w') \<longrightarrow>
      (\<forall>ops. BookSeat (exec_all w' ops) f n = Inr (False, exec_all w' ops)))"
proof (intro conjI impI allI)
  assume h: "seat_at w f n = Some s \<and> \<not> IsBooked s"
  from seat_at_SomeD[of w f n s] h obtain fl a where
    f: "load (flight_heap w) f = Inr fl" and rng: "1 \<le> n" "n \<le> int (length (Seats fl))" and
    a: "Seats fl ! nat (n - 1) = Ptr a" "a < length (seat_heap w)" and sv: "s = seat_heap w ! a"
    by blast
  let ?w1 = "w\<lparr>seat_heap := (seat_heap w)[a := (seat_heap w ! a)\<lparr>IsBooked := True\<rparr>]\<rparr>"
  from h sv BookSeat_in_range[OF f rng a] have first: "BookSeat w f n = Inr (True, ?w1)"
    by simp
  from f have f1: "load (flight_heap ?w1) f = Inr fl" by simp
  from a have a1: "a < length (seat_heap ?w1)" by simp
  from a BookSeat_in_range[OF f1 rng a(1) a1] have "BookSeat ?w1 f n = Inr (False, ?w1)"
    by simp
  with first show "\<exists>w1. BookSeat w f n = Inr (True, w1) \<and> BookSeat w1 f n = Inr (False, w1)"
    by blast
next
  fix ops
  assume h: "seat_at w f n = Some s \<and> BookSeat w f n = Inr (False, w')"
  from seat_at_SomeD[of w f n s] h obtain fl a where
    f: "load (flight_heap w) f = Inr fl" and rng: "1 \<le> n" "n \<le> int (length (Seats fl))" and
    a: "Seats fl ! nat (n - 1) = Ptr a" "a < length (seat_heap w)" and sv: "s = seat_heap w ! a"
    by blast
  from h BookSeat_in_range[OF f rng a] sv have booked: "IsBooked s"
    by (auto split: if_splits)
  from h BookSeat_FalseD[of w f n w'] have w': "w' = w" by simp
  let ?w2 = "exec_all w ops"
  have "evolves w ?w2" by (rule exec_all_evolves)
  from seat_at_evolves[OF this, of f n s] h booked obtain s' where
    s': "seat_at ?w2 f n = Some s'" "IsBooked s'" by auto
  from seat_at_SomeD[OF s'(1)] obtain fl2 a2 where
    f2: "load (flight_heap ?w2) f = Inr fl2" and rng2: "1 \<le> n" "n \<le> int (length (Seats fl2))" and
    a2: "Seats fl2 ! nat (n - 1) = Ptr a2" "a2 < length (seat_heap ?w2)" and
    sv2: "s' = seat_heap ?w2 ! a2"
    by blast
  from BookSeat_in_range[OF f2 rng2 a2] s'(2) sv2
  have "BookSeat ?w2 f n = Inr (False, ?w2)" by simp
  with w' show "BookSeat (exec_all w' ops) f n = Inr (False, exec_all w' ops)" by simp
qed

theorem BookSeat_twice_witness:
  "seat_at example_world (Ptr 0) 1 = Some \<lparr>Seat.SeatNumber = 1, IsBooked = False\<rparr> \<and>
   (\<exists>w1. BookSeat example_world (Ptr 0) 1 = Inr (True, w1) \<and>
          BookSeat w1 (Ptr 0) 1 = Inr (False, w1)) \<and>
   seat_at example_world_booked (Ptr 0) 1 = Some \<lparr>Seat.SeatNumber = 1, IsBooked = True\<rparr> \<and>
   BookSeat example_world_booked (Ptr 0) 1 = Inr (False, example_world_booked) \<and>
   BookSeat (exec_all example_world_booked [OpBookSeat (Ptr 0) 2]) (Ptr 0) 1 =
     Inr (False, exec_all example_world_booked [OpBookSeat (Ptr 0) 2])"
  using seat_at_example seat_at_example_booked BookSeat_example_again
    BookSeat_twice[of example_world "Ptr 0" 1 "\<lparr>Seat.SeatNumber = 1, IsBooked = False\<rparr>"]
    BookSeat_twice[of example_world_booked "Ptr 0" 1 "\<lparr>Seat.SeatNumber = 1, IsBooked = True\<rparr>"
      example_world_booked]
  by simp

section \<open>BookSeat under concurrent calls\<close>

text \<open>A call is its two steps, taken without interruption.\<close>

lemma BookSeat_two_steps:
  "BookSeat w f n =
     (case BookSeat_check w f n of
        Inl e \<Rightarrow> Inl e
      | Inr go_on \<Rightarrow>
          if go_on
          then (case BookSeat_set w f n of Inl e \<Rightarrow> Inl e | Inr w' \<Rightarrow> Inr (True, w'))
          else Inr (False, w))"
  by (simp add: BookSeat_def BookSeat_check_def BookSeat_set_def split: sum.splits)

lemma run_alone:
  "run [0, 0] (w, [(f, n, AtCheck)]) =
     (case BookSeat w f n of
        Inl e \<Rightarrow> (w, [(f, n, Panicked e)])
      | Inr (b, w') \<Rightarrow> (w', [(f, n, Returned b)]))"
  by (simp add: BookSeat_two_steps split: sum.splits)

lemma check_example_1: "BookSeat_check example_world (Ptr 0) 1 = Inr True"
  by (simp add: BookSeat_check_def index_def load_def example_world_def example_flight_def)

lemma check_example_2: "BookSeat_check example_world (Ptr 0) 2 = Inr True"
  by (simp add: BookSeat_check_def index_def load_def example_world_def example_flight_def)

lemma set_example_1: "BookSeat_set example_world (Ptr 0) 1 = Inr example_world_booked"
  by (simp add: BookSeat_set_def index_def load_def store_def example_world_def
      example_world_booked_def example_flight_def)

lemma set_example_1_again: "BookSeat_set example_world_booked (Ptr 0) 1 = Inr example_world_booked"
  by (simp add: BookSeat_set_def index_def load_def store_def example_world_def
      example_world_booked_def example_flight_def)

lemma set_example_2: "BookSeat_set example_world_booked (Ptr 0) 2 = Inr example_world_full"
  by (simp add: BookSeat_set_def index_def load_def store_def example_world_def
      example_world_booked_def example_world_full_def example_flight_def)

lemma set_example_2_again: "BookSeat_set example_world_full (Ptr 0) 2 = Inr example_world_full"
  by (simp add: BookSeat_set_def index_def load_def store_def example_world_def
      example_world_full_def example_flight_def)

text \<open>
  Steps of goroutines only ever set flags, so also under every schedule a seat keeps its
  number and a booked seat stays booked.
\<close>

lemma BookSeat_set_evolves:
  assumes "BookSeat_set w f n = Inr w1"
  shows "evolves w w1"
  using assms
  by (auto simp: BookSeat_set_def store_def evolves_def nth_list_update
      split: sum.splits ptr.splits if_splits)

lemma step_evolves: "evolves w (fst (step w g))"
proof -
  obtain f n p where g: "g = (f, n, p)" by (cases g)
  show ?thesis
  proof (cases p)
    case AtCheck
    with g show ?thesis by (simp add: evolves_refl split: sum.splits)
  next
    case AtSet
    with g show ?thesis by (auto simp: evolves_refl BookSeat_set_evolves split: sum.splits)
  next
    case (Returned b)
    with g show ?thesis by (simp add: evolves_refl)
  next
    case (Panicked e)
    with g show ?thesis by (simp add: evolves_refl)
  qed
qed

lemma run_evolves: "evolves w (fst (run sched (w, gs)))"
proof (induction sched arbitrary: w gs)
  case Nil
  show ?case by (simp add: evolves_refl)
next
  case (Cons i sched)
  show ?case
  proof (cases "i < length gs")
    case False
    with Cons.IH[of w gs] show ?thesis by simp
  next
    case True
    obtain w1 g1 where s: "step w (gs ! i) = (w1, g1)" by (cases "step w (gs ! i)")
    with step_evolves[of w "gs ! i"] have "evolves w w1" by simp
    moreover have "evolves w1 (fst (run sched (w1, gs[i := g1])))" by (rule Cons.IH)
    ultimately show ?thesis using True s by (simp add: evolves_trans)
  qed
qed

text \<open>
  Two goroutines that call \<^verbatim>\<open>BookSeat\<close> on the same unbooked seat both return true when
  both pass the check before either writes: this holds for every seat of every flight.
\<close>

lemma BookSeat_race_any_seat:
  assumes "seat_at w f n = Some s" and "\<not> IsBooked s"
  shows "\<exists>w'. run [0, 1, 0, 1] (w, [(f, n, AtCheck), (f, n, AtCheck)]) =
           (w', [(f, n, Returned True), (f, n, Returned True)])"
proof -
  from seat_at_SomeD[OF assms(1)] obtain fl a where
    f: "load (flight_heap w) f = Inr fl" and rng: "1 \<le> n" "n \<le> int (length (Seats fl))" and
    a: "Seats fl ! nat (n - 1) = Ptr a" "a < length (seat_heap w)" and sv: "s = seat_heap w ! a"
    by blast
  let ?w1 = "w\<lparr>seat_heap := (seat_heap w)[a := (seat_heap w ! a)\<lparr>IsBooked := True\<rparr>]\<rparr>"
  let ?w2 = "?w1\<lparr>seat_heap := (seat_heap ?w1)[a := (seat_heap ?w1 ! a)\<lparr>IsBooked := True\<rparr>]\<rparr>"
  from f rng a sv assms(2) have c: "BookSeat_check w f n = Inr True"
    by (simp add: BookSeat_check_def index_def load_def)
  from f rng a have s1: "BookSeat_set w f n = Inr ?w1"
    by (simp add: BookSeat_set_def index_def store_def)
  from f rng a have s2: "BookSeat_set ?w1 f n = Inr ?w2"
    by (simp add: BookSeat_set_def index_def store_def)
  have "run [0, 1, 0, 1] (w, [(f, n, AtCheck), (f, n, AtCheck)]) =
           (?w2, [(f, n, Returned True), (f, n, Returned True)])"
    by (simp add: c s1 s2)
  then show ?thesis by blast
qed

text \<open>
  Claim C1 fails on the code. On the example flight (\<open>N = 2\<close> seats), four goroutines call
  \<^verbatim>\<open>BookSeat\<close>, two on each seat. In the schedule where each passes line 145 before any
  reaches line 148, all four calls return true: both seats are reported reserved twice,
  where the claim allows two successes in all.
\<close>

theorem BookSeat_race:
  "run [0, 1, 2, 3, 0, 1, 2, 3]
     (example_world,
      [(Ptr 0, 1, AtCheck), (Ptr 0, 1, AtCheck), (Ptr 0, 2, AtCheck), (Ptr 0, 2, AtCheck)]) =
   (example_world_full,
    [(Ptr 0, 1, Returned True), (Ptr 0, 1, Returned True),
     (Ptr 0, 2, Returned True), (Ptr 0, 2, Returned True)])"
  by (simp add: check_example_1 check_example_2 set_example_1 set_example_1_again
      set_example_2 set_example_2_again)

section \<open>Flight Search\<close>

lemma search_loop_eq:
  "search_loop fh source destination date ps results =
     (if list_all (loadable fh) ps
      then Inr (results @ filter (matches fh source destination date) ps)
      else Inl NilDereference)"
proof (induction ps arbitrary: results)
  case Nil
  show ?case by simp
next
  case (Cons p ps)
  show ?case
  proof (cases "load fh p")
    case (Inl e)
    then have "e = NilDereference" by (rule load_Inl)
    with Inl show ?thesis by (simp add: loadable_def)
  next
    case (Inr fl)
    then have l: "loadable fh p" by (simp add: loadable_def)
    from Inr have m: "matches fh source destination date p \<longleftrightarrow>
      Source fl = source \<and> Destination fl = destination \<and>
      Year (Departure fl) = Year date \<and> Month (Departure fl) = Month date \<and>
      Day (Departure fl) = Day date"
      by (simp add: matches_def)
    from Inr l m show ?thesis by (simp add: Cons.IH)
  qed
qed

text \<open>
  Claim C6. Where every element of \<^verbatim>\<open>fs.flights\<close> can be dereferenced,
  \<^verbatim>\<open>FlightSearch.SearchFlights\<close> returns the elements whose flight has the source and the
  destination of the query and departs in the year, month and day of its date, in the
  order in which they stand in the slice, whatever their departure times. A nil element
  makes it panic.
\<close>

theorem FlightSearch_filters_in_order:
  "FlightSearch_SearchFlights fh arrs fs source destination date =
     (if list_all (loadable fh) (elems arrs (fs_flights fs))
      then Inr (filter (matches fh source destination date) (elems arrs (fs_flights fs)))
      else Inl NilDereference)"
  by (simp add: FlightSearch_SearchFlights_def search_loop_eq)

theorem FlightSearch_filters_in_order_witness:
  "FlightSearch_SearchFlights example_flights example_arrays example_search
     ''SFO'' ''JFK'' query_date = Inr [Ptr 0, Ptr 3]"
  using FlightSearch_filters_in_order[of example_flights example_arrays example_search
      "''SFO''" "''JFK''" query_date]
  by (simp add: elems_def example_arrays_def example_search_def loadable_def matches_def
      load_def example_flights_def example_flight_def departure_0800_def query_date_def)

section \<open>The Facade\<close>

lemma elems_fresh: "elems (arrs @ [xs]) \<lparr>array = length arrs, len = n, cap = c\<rparr> = take n xs"
  by (simp add: elems_def)

lemma append_slice_elems:
  assumes wf: "wf_slice arrs s" and ap: "append_slice grow arrs s x = (s', arrs')"
  shows "elems arrs' s' = elems arrs s @ [x] \<and> wf_slice arrs' s'"
proof (cases "len s < cap s")
  case True
  with ap have s': "s' = s\<lparr>len := len s + 1\<rparr>"
    and arrs': "arrs' = arrs[array s := (arrs ! array s)[len s := x]]"
    by (simp_all add: append_slice_def)
  from wf True have lt: "len s < length (arrs ! array s)" and a: "array s < length arrs"
    by (simp_all add: wf_slice_def)
  from a lt have "elems arrs' s' = take (Suc (len s)) ((arrs ! array s)[len s := x])"
    by (simp add: elems_def s' arrs')
  also from lt have "\<dots> = take (len s) (arrs ! array s) @ [x]" by (rule take_update_snoc)
  also from a have "\<dots> = elems arrs s @ [x]" by (simp add: elems_def)
  finally have e: "elems arrs' s' = elems arrs s @ [x]" .
  from wf True have "wf_slice arrs' s'" by (simp add: wf_slice_def s' arrs')
  with e show ?thesis by simp
next
  case False
  define c where "c = max (len s + 1) (grow (cap s))"
  from False ap have s': "s' = \<lparr>array = length arrs, len = len s + 1, cap = c\<rparr>"
    and arrs': "arrs' = arrs @ [elems arrs s @ x # replicate (c - (len s + 1)) nil]"
    by (simp_all add: append_slice_def c_def Let_def)
  from wf have le: "length (elems arrs s) = len s" by (simp add: wf_slice_def elems_def)
  have c: "len s + 1 \<le> c" by (simp add: c_def)
  have e: "elems arrs' s' = elems arrs s @ [x]"
    unfolding s' arrs' elems_fresh by (simp add: le)
  from c le have "wf_slice arrs' s'" by (simp add: wf_slice_def s' arrs')
  with e show ?thesis by simp
qed

lemma NewAirlineManagementSystem_wf:
  "NewAirlineManagementSystem g m = (ams, g', m') \<Longrightarrow>
   wf_facade m' ams \<and> elems (flight_arrays m') (flights ams) = [] \<and>
   elems (aircraft_arrays m') (aircrafts ams) = []"
  by (auto simp: NewAirlineManagementSystem_def make_empty_def GetBookingManager_def
      GetPaymentProcessor_def NewFlightSearch_def new_def wf_facade_def wf_slice_def elems_def
      Let_def split: prod.splits if_splits)

lemma wf_example_facade: "wf_facade example_memory example_system"
  using NewAirlineManagementSystem_wf[of process_start empty_memory]
  by (cases "NewAirlineManagementSystem process_start empty_memory")
    (simp add: example_system_def example_memory_def)

text \<open>
  Claim C10. On a Facade whose slices fit their arrays (as the constructor leaves them,
  and as both methods leave them again), \<^verbatim>\<open>AddFlight\<close> makes the elements of \<^verbatim>\<open>flights\<close>
  the former ones followed by the new flight and leaves the elements of \<^verbatim>\<open>aircrafts\<close>
  as they were; \<^verbatim>\<open>AddAircraft\<close> does the same with the roles exchanged. This holds for
  every growth policy of \<^verbatim>\<open>append\<close>.
\<close>

theorem Add_appends:
  assumes wf: "wf_facade m ams"
  shows "(case AddFlight grow m ams flight of
            (ams', m') \<Rightarrow>
              elems (flight_arrays m') (flights ams') =
                elems (flight_arrays m) (flights ams) @ [flight] \<and>
              elems (aircraft_arrays m') (aircrafts ams') =
                elems (aircraft_arrays m) (aircrafts ams) \<and>
              wf_facade m' ams') \<and>
         (case AddAircraft grow m ams aircraft of
            (ams', m') \<Rightarrow>
              elems (aircraft_arrays m') (aircrafts ams') =
                elems (aircraft_arrays m) (aircrafts ams) @ [aircraft] \<and>
              elems (flight_arrays m') (flights ams') =
                elems (flight_arrays m) (flights ams) \<and>
              wf_facade m' ams')"
proof -
  obtain s1 arrs1 where a1: "append_slice grow (flight_arrays m) (flights ams) flight = (s1, arrs1)"
    by (cases "append_slice grow (flight_arrays m) (flights ams) flight")
  obtain s2 arrs2 where
    a2: "append_slice grow (aircraft_arrays m) (aircrafts ams) aircraft = (s2, arrs2)"
    by (cases "append_slice grow (aircraft_arrays m) (aircrafts ams) aircraft")
  from wf have w1: "wf_slice (flight_arrays m) (flights ams)"
    and w2: "wf_slice (aircraft_arrays m) (aircrafts ams)" by (simp_all add: wf_facade_def)
  from append_slice_elems[OF w1 a1] append_slice_elems[OF w2 a2] w1 w2 a1 a2
  show ?thesis by (simp add: AddFlight_def AddAircraft_def wf_facade_def)
qed

theorem Add_appends_witness:
  "wf_facade example_memory example_system \<and>
   (case AddFlight (\<lambda>c. 2 * c) example_memory example_system (Ptr 0) of
      (ams', m') \<Rightarrow>
        elems (flight_arrays m') (flights ams') =
          elems (flight_arrays example_memory) (flights example_system) @ [Ptr 0] \<and>
        elems (aircraft_arrays m') (aircrafts ams') =
          elems (aircraft_arrays example_memory) (aircrafts example_system) \<and>
        wf_facade m' ams') \<and>
   (case AddAircraft (\<lambda>c. 2 * c) example_memory example_system (Ptr 0) of
      (ams', m') \<Rightarrow>
        elems (aircraft_arrays m') (aircrafts ams') =
          elems (aircraft_arrays example_memory) (aircrafts example_system) @ [Ptr 0] \<and>
        elems (flight_arrays m') (flights ams') =
          elems (flight_arrays example_memory) (flights example_system) \<and>
        wf_facade m' ams')"
  using wf_example_facade Add_appends[OF wf_example_facade, where grow = "\<lambda>c. 2 * c" and flight = "Ptr 0"
      and aircraft = "Ptr 0"]
  by blast

text \<open>
  The FlightSearch of a Facade holds the slice header that \<^verbatim>\<open>flights\<close> had in the
  constructor, of length 0. \<^verbatim>\<open>AddFlight\<close> assigns a new header to \<^verbatim>\<open>ams.flights\<close> only, so
  the Facade's search visits no flight, whatever was added.
\<close>

lemma facade_exec_keeps_search:
  "facade_exec grow (ams, m) x = (ams', m') \<Longrightarrow>
   flightSearch ams' = flightSearch ams \<and> search_heap m' = search_heap m"
  by (cases x) (auto simp: AddFlight_def AddAircraft_def split: prod.splits)

lemma facade_run_keeps_search:
  "facade_run grow (ams, m) ops = (ams', m') \<Longrightarrow>
   flightSearch ams' = flightSearch ams \<and> search_heap m' = search_heap m"
  unfolding facade_run_def
proof (induction ops arbitrary: ams m)
  case Nil
  then show ?case by simp
next
  case (Cons x xs)
  obtain ams1 m1 where s: "facade_exec grow (ams, m) x = (ams1, m1)"
    by (cases "facade_exec grow (ams, m) x")
  with Cons.prems have "foldl (facade_exec grow) (ams1, m1) xs = (ams', m')" by simp
  from Cons.IH[OF this] facade_exec_keeps_search[OF s] show ?case by simp
qed

lemma NewAirlineManagementSystem_search:
  "NewAirlineManagementSystem g m = (ams, g', m') \<Longrightarrow>
   \<exists>a. load (search_heap m') (flightSearch ams) = Inr \<lparr>fs_flights = \<lparr>array = a, len = 0, cap = 0\<rparr>\<rparr>"
  by (auto simp: NewAirlineManagementSystem_def make_empty_def GetBookingManager_def
      GetPaymentProcessor_def NewFlightSearch_def new_def load_def
      Let_def split: prod.splits if_splits)

lemma SearchFlights_sees_nothing:
  assumes "NewAirlineManagementSystem g m = (ams, g', m')"
    and "facade_run grow (ams, m') ops = (ams2, m2)"
  shows "SearchFlights fh m2 ams2 source destination date = Inr []"
proof -
  from NewAirlineManagementSystem_search[OF assms(1)] obtain a where
    "load (search_heap m') (flightSearch ams) = Inr \<lparr>fs_flights = \<lparr>array = a, len = 0, cap = 0\<rparr>\<rparr>"
    by blast
  with facade_run_keeps_search[OF assms(2)]
  have "load (search_heap m2) (flightSearch ams2) =
    Inr \<lparr>fs_flights = \<lparr>array = a, len = 0, cap = 0\<rparr>\<rparr>" by simp
  then show ?thesis
    by (simp add: SearchFlights_def FlightSearch_SearchFlights_def elems_def)
qed

lemma matches_example: "matches example_flights ''SFO'' ''JFK'' query_date (Ptr 0)"
  by (simp add: matches_def load_def example_flights_def example_flight_def departure_0800_def
      query_date_def)

text \<open>
  Claim C3 fails on the code. A new Facade is given the flight \<^verbatim>\<open>AA1\<close> (SFO to JFK,
  departing 2024-01-01): the flight is then the one element of \<^verbatim>\<open>flights\<close> and it matches
  the query, yet \<^verbatim>\<open>SearchFlights("SFO", "JFK", 2024-01-01)\<close> on the Facade returns the empty
  list, under every growth policy of \<^verbatim>\<open>append\<close>.
\<close>

theorem Facade_search_misses_added_flight:
  "(case NewAirlineManagementSystem process_start empty_memory of
      (ams, g, m) \<Rightarrow>
        (case AddFlight grow m ams (Ptr 0) of
           (ams', m') \<Rightarrow>
             elems (flight_arrays m') (flights ams') = [Ptr 0] \<and>
             matches example_flights ''SFO'' ''JFK'' query_date (Ptr 0) \<and>
             SearchFlights example_flights m' ams' ''SFO'' ''JFK'' query_date = Inr []))"
  by (simp add: NewAirlineManagementSystem_def make_empty_def GetBookingManager_def
      GetPaymentProcessor_def NewFlightSearch_def new_def load_def process_start_def
      empty_memory_def AddFlight_def append_slice_def elems_def matches_example
      SearchFlights_def FlightSearch_SearchFlights_def Let_def)

section \<open>The stores\<close>

lemma AddBooking_Inr_iff:
  "AddBooking bh bm p = Inr bm' \<longleftrightarrow>
     (\<exists>b. load bh p = Inr b \<and> bm' = bm\<lparr>bookings := (bookings bm)(BookingID b \<mapsto> p)\<rparr>)"
  by (auto simp: AddBooking_def split: sum.splits)

lemma AddBookings_lookup:
  assumes "AddBookings bh bm ps = Inr bm'"
  shows "bookings bm' bookingID =
     (if added_under bh bookingID ps = [] then bookings bm bookingID
      else Some (last (added_under bh bookingID ps)))"
  using assms
proof (induction ps arbitrary: bm)
  case Nil
  then show ?case by (simp add: added_under_def)
next
  case (Cons p ps)
  from Cons.prems obtain bm1 where a: "AddBooking bh bm p = Inr bm1"
    and r: "AddBookings bh bm1 ps = Inr bm'"
    by (auto split: sum.splits)
  from a obtain b where b: "load bh p = Inr b"
    and bm1: "bm1 = bm\<lparr>bookings := (bookings bm)(BookingID b \<mapsto> p)\<rparr>"
    by (auto simp: AddBooking_Inr_iff)
  have split: "added_under bh bookingID (p # ps) =
    (if BookingID b = bookingID then p # added_under bh bookingID ps
     else added_under bh bookingID ps)"
    by (simp add: added_under_def b)
  from Cons.IH[OF r] show ?case
    by (simp add: split bm1)
qed

lemma added_under_not_nil: "p \<in> set (added_under bh bookingID ps) \<Longrightarrow> p \<noteq> nil"
  by (auto simp: added_under_def load_def split: sum.splits)

lemma AddBookings_total:
  "list_all (loadable bh) ps \<Longrightarrow> \<exists>bm'. AddBookings bh bm ps = Inr bm'"
proof (induction ps arbitrary: bm)
  case Nil
  show ?case by simp
next
  case (Cons p ps)
  then obtain b where "load bh p = Inr b"
    by (auto simp: loadable_def split: sum.splits)
  with Cons show ?case by (simp add: AddBooking_def)
qed

lemma AddBookings_example:
  "AddBookings example_bookings \<lparr>bookings = Map.empty\<rparr> [Ptr 0, Ptr 1, Ptr 2] =
     Inr \<lparr>bookings = [''B1'' \<mapsto> Ptr 2, ''B2'' \<mapsto> Ptr 1]\<rparr>"
  by (simp add: AddBooking_def load_def example_bookings_def fun_upd_twist)

text \<open>
  Claim C7. After a sequence of \<^verbatim>\<open>AddBooking\<close> calls on the store that
  \<^verbatim>\<open>GetBookingManager\<close> creates, \<^verbatim>\<open>GetBooking\<close> returns the booking added last under the id,
  and \<^verbatim>\<open>nil\<close> when none was added under it; it cannot panic, and it returns \<^verbatim>\<open>nil\<close> only
  in that case. (A sequence of calls with bookings that are not nil runs to its end,
  lemma \<open>AddBookings_total\<close>.)
\<close>

theorem GetBooking_last_write_wins:
  assumes "AddBookings bh \<lparr>bookings = Map.empty\<rparr> ps = Inr bm"
  shows "GetBooking bm bookingID =
           (if added_under bh bookingID ps = [] then nil
            else last (added_under bh bookingID ps)) \<and>
         (GetBooking bm bookingID = nil \<longleftrightarrow> added_under bh bookingID ps = [])"
proof -
  from AddBookings_lookup[OF assms, of bookingID]
  have g: "GetBooking bm bookingID =
           (if added_under bh bookingID ps = [] then nil
            else last (added_under bh bookingID ps))"
    by (simp add: GetBooking_def)
  have "last (added_under bh bookingID ps) \<noteq> nil" if "added_under bh bookingID ps \<noteq> []"
    using that added_under_not_nil[of "last (added_under bh bookingID ps)" bh bookingID ps]
    by simp
  with g show ?thesis by auto
qed

theorem GetBooking_last_write_wins_witness:
  "AddBookings example_bookings \<lparr>bookings = Map.empty\<rparr> [Ptr 0, Ptr 1, Ptr 2] =
     Inr \<lparr>bookings = [''B1'' \<mapsto> Ptr 2, ''B2'' \<mapsto> Ptr 1]\<rparr> \<and>
   GetBooking \<lparr>bookings = [''B1'' \<mapsto> Ptr 2, ''B2'' \<mapsto> Ptr 1]\<rparr> ''B1'' = Ptr 2 \<and>
   GetBooking \<lparr>bookings = [''B1'' \<mapsto> Ptr 2, ''B2'' \<mapsto> Ptr 1]\<rparr> ''B3'' = nil"
  using AddBookings_example
    GetBooking_last_write_wins[OF AddBookings_example, of "''B1''"]
    GetBooking_last_write_wins[OF AddBookings_example, of "''B3''"]
  by (simp add: added_under_def load_def example_bookings_def)

lemma access_from:
  assumes "(if onceBookingManager g
            then bookingManagerInstance g = Ptr 0 \<and> length (manager_heap g) = 1
            else manager_heap g = [])"
    and "(if oncePaymentProcessor g
            then paymentProcessorInstance g = Ptr 0 \<and> length (processor_heap g) = 1
            else processor_heap g = [])"
  shows "fst (access g cs) =
           map (\<lambda>c. case c of BookingStore \<Rightarrow> Manager (Ptr 0)
                     | PaymentStore \<Rightarrow> Processor (Ptr 0)) cs \<and>
         length (manager_heap (snd (access g cs))) =
           (if onceBookingManager g \<or> BookingStore \<in> set cs then 1 else 0) \<and>
         length (processor_heap (snd (access g cs))) =
           (if oncePaymentProcessor g \<or> PaymentStore \<in> set cs then 1 else 0)"
  using assms
proof (induction cs arbitrary: g)
  case Nil
  then show ?case by (auto split: if_splits)
next
  case (Cons c cs)
  show ?case
  proof (cases c)
    case BookingStore
    obtain p g1 where g1: "GetBookingManager g = (p, g1)" by (cases "GetBookingManager g")
    with Cons.prems have p: "p = Ptr 0" and o1: "onceBookingManager g1"
      and i1: "bookingManagerInstance g1 = Ptr 0 \<and> length (manager_heap g1) = 1"
      and pp: "oncePaymentProcessor g1 = oncePaymentProcessor g"
        "paymentProcessorInstance g1 = paymentProcessorInstance g"
        "processor_heap g1 = processor_heap g"
      by (auto simp: GetBookingManager_def new_def Let_def split: if_splits)
    from Cons.IH[of g1] o1 i1 pp Cons.prems(2)
    have "fst (access g1 cs) =
           map (\<lambda>c. case c of BookingStore \<Rightarrow> Manager (Ptr 0)
                     | PaymentStore \<Rightarrow> Processor (Ptr 0)) cs \<and>
         length (manager_heap (snd (access g1 cs))) = 1 \<and>
         length (processor_heap (snd (access g1 cs))) =
           (if oncePaymentProcessor g \<or> PaymentStore \<in> set cs then 1 else 0)"
      by simp
    with BookingStore g1 p show ?thesis by (cases "access g1 cs") auto
  next
    case PaymentStore
    obtain p g1 where g1: "GetPaymentProcessor g = (p, g1)" by (cases "GetPaymentProcessor g")
    with Cons.prems have p: "p = Ptr 0" and o1: "oncePaymentProcessor g1"
      and i1: "paymentProcessorInstance g1 = Ptr 0 \<and> length (processor_heap g1) = 1"
      and bm: "onceBookingManager g1 = onceBookingManager g"
        "bookingManagerInstance g1 = bookingManagerInstance g"
        "manager_heap g1 = manager_heap g"
      by (auto simp: GetPaymentProcessor_def new_def Let_def split: if_splits)
    from Cons.IH[of g1] o1 i1 bm Cons.prems(1)
    have "fst (access g1 cs) =
           map (\<lambda>c. case c of BookingStore \<Rightarrow> Manager (Ptr 0)
                     | PaymentStore \<Rightarrow> Processor (Ptr 0)) cs \<and>
         length (manager_heap (snd (access g1 cs))) =
           (if onceBookingManager g \<or> BookingStore \<in> set cs then 1 else 0) \<and>
         length (processor_heap (snd (access g1 cs))) = 1"
      by simp
    with PaymentStore g1 p show ?thesis by (cases "access g1 cs") auto
  qed
qed

text \<open>
  Claim C8. In a process, whatever the number and the order of the calls of the two
  accessors, every call of \<^verbatim>\<open>GetBookingManager\<close> returns the same pointer, which is not
  nil, and so does every call of \<^verbatim>\<open>GetPaymentProcessor\<close>; one store of each kind is
  created by the first call of its accessor and none after that.
\<close>

theorem accessors_return_one_instance:
  "fst (access process_start cs) =
     map (\<lambda>c. case c of BookingStore \<Rightarrow> Manager (Ptr 0) | PaymentStore \<Rightarrow> Processor (Ptr 0)) cs \<and>
   length (manager_heap (snd (access process_start cs))) =
     (if BookingStore \<in> set cs then 1 else 0) \<and>
   length (processor_heap (snd (access process_start cs))) =
     (if PaymentStore \<in> set cs then 1 else 0)"
  using access_from[of process_start cs] by (simp add: process_start_def)

theorem accessors_return_one_instance_witness:
  "fst (access process_start [BookingStore, PaymentStore, BookingStore, PaymentStore]) =
     [Manager (Ptr 0), Processor (Ptr 0), Manager (Ptr 0), Processor (Ptr 0)] \<and>
   length (manager_heap
     (snd (access process_start [BookingStore, PaymentStore, BookingStore, PaymentStore]))) = 1 \<and>
   length (processor_heap
     (snd (access process_start [BookingStore, PaymentStore, BookingStore, PaymentStore]))) = 1"
  using accessors_return_one_instance[of "[BookingStore, PaymentStore, BookingStore, PaymentStore]"]
  by simp

text \<open>The stores of a Facade are the two singletons: its constructor calls the accessors.\<close>

lemma NewAirlineManagementSystem_access:
  assumes "NewAirlineManagementSystem g m = (ams, g', m')"
  shows "access g [BookingStore, PaymentStore] =
           ([Manager (bookingManager ams), Processor (paymentProcessor ams)], g')"
  using assms
  by (auto simp: NewAirlineManagementSystem_def NewFlightSearch_def make_empty_def new_def Let_def
      split: prod.splits)

end
